theory Spec2Isabelle
  imports Complex_Main "HOL-Library.Word" "HOL-Library.Sublist"
begin

section \<open>The PDF analysis backend (\<^verbatim>\<open>src/backend.py\<close>)\<close>

text \<open>
  A shallow embedding of the analysis pipeline of \<^verbatim>\<open>backend.py\<close>: the text helpers
  (\<^verbatim>\<open>clean_text\<close>, the heading heuristic), the structure analyzer, the entity extractor,
  the summarizer, the chart classifier, image extraction and the request handler.

  Python strings are modelled as \<^typ>\<open>string\<close>: a \<^typ>\<open>char\<close> is one of the code points 0 to
  255 (Latin-1), and the character classes of the regular expressions and of
  \<^verbatim>\<open>str.isupper\<close>, \<^verbatim>\<open>str.strip\<close>, \<^verbatim>\<open>str.lower\<close> are the ones Python has on these code
  points. Code points above 255 are outside the model.

  The libraries the backend calls (PyMuPDF, PIL, pytesseract, spaCy, base64, NumPy's
  conversion of an image to an array and its double-precision division) are parameters of
  the model, collected in the record \<open>pdf_env\<close>; a call that can raise returns a value of
  \<open>error + 'a\<close>.
\<close>

subsection \<open>Character classes\<close>

text \<open>
  \<^verbatim>\<open>\s\<close> and \<^verbatim>\<open>str.isspace\<close>: TAB, LF, VT, FF, CR, FS, GS, RS, US, the space, NEL (133) and
  the no-break space (160).
\<close>

definition is_space :: "char \<Rightarrow> bool" where
  "is_space c =
     (let n = (of_char c :: nat) in
      (9 \<le> n \<and> n \<le> 13) \<or> (28 \<le> n \<and> n \<le> 32) \<or> n = 133 \<or> n = 160)"

text \<open>
  \<^verbatim>\<open>[A-Z]\<close>, \<^verbatim>\<open>[a-z]\<close> and \<^verbatim>\<open>[0-9]\<close> are ranges of ASCII; \<^verbatim>\<open>\d\<close> matches the decimal digits,
  which below 256 are the ASCII digits.
\<close>

definition is_AZ :: "char \<Rightarrow> bool" where
  "is_AZ c = (65 \<le> (of_char c :: nat) \<and> (of_char c :: nat) \<le> 90)"

definition is_az :: "char \<Rightarrow> bool" where
  "is_az c = (97 \<le> (of_char c :: nat) \<and> (of_char c :: nat) \<le> 122)"

definition is_digit :: "char \<Rightarrow> bool" where
  "is_digit c = (48 \<le> (of_char c :: nat) \<and> (of_char c :: nat) \<le> 57)"

text \<open>
  \<^verbatim>\<open>\w\<close>: the underscore and the alphanumeric characters, which below 256 are the ASCII
  letters and digits, the ordinal indicators (170, 186), the superscript digits (178, 179,
  185), the micro sign (181), the fractions (188 to 190) and the letters from 192 on, but
  not the multiplication sign (215) and the division sign (247).
\<close>

definition is_word :: "char \<Rightarrow> bool" where
  "is_word c =
     (is_AZ c \<or> is_az c \<or> is_digit c \<or> c = CHR ''_'' \<or>
      (let n = (of_char c :: nat) in
       n = 170 \<or> n = 178 \<or> n = 179 \<or> n = 181 \<or> n = 185 \<or> n = 186 \<or>
       (188 \<le> n \<and> n \<le> 190) \<or> (192 \<le> n \<and> n \<le> 214) \<or>
       (216 \<le> n \<and> n \<le> 246) \<or> 248 \<le> n))"

text \<open>
  The upper-case and the lower-case characters (\<^verbatim>\<open>str.isupper\<close>, \<^verbatim>\<open>str.islower\<close> of one
  character); no character below 256 is title-case.
\<close>

definition is_upper_char :: "char \<Rightarrow> bool" where
  "is_upper_char c =
     (let n = (of_char c :: nat) in
      (65 \<le> n \<and> n \<le> 90) \<or> (192 \<le> n \<and> n \<le> 214) \<or> (216 \<le> n \<and> n \<le> 222))"

definition is_lower_char :: "char \<Rightarrow> bool" where
  "is_lower_char c =
     (let n = (of_char c :: nat) in
      (97 \<le> n \<and> n \<le> 122) \<or> n = 170 \<or> n = 181 \<or> n = 186 \<or>
      (223 \<le> n \<and> n \<le> 246) \<or> 248 \<le> n)"

subsection \<open>String methods\<close>

text \<open>\<^verbatim>\<open>s.strip()\<close>: leading and trailing whitespace removed.\<close>

definition strip :: "string \<Rightarrow> string" where
  "strip s = rev (dropWhile is_space (rev (dropWhile is_space s)))"

text \<open>\<^verbatim>\<open>s.isupper()\<close>: at least one cased character, and no lower-case one.\<close>

definition isupper :: "string \<Rightarrow> bool" where
  "isupper s = (filter is_upper_char s \<noteq> [] \<and> filter is_lower_char s = [])"

text \<open>
  \<^verbatim>\<open>s.lower()\<close>: an upper-case character is replaced by the character 32 code points above
  it, every other character is kept.
\<close>

definition lower_char :: "char \<Rightarrow> char" where
  "lower_char c = (if is_upper_char c then char_of (of_char c + (32 :: nat)) else c)"

definition lower :: "string \<Rightarrow> string" where
  "lower s = map lower_char s"

text \<open>\<^verbatim>\<open>s.split('\n')\<close>: the pieces between line feeds; never the empty list.\<close>

fun split_lines :: "string \<Rightarrow> string list" where
  "split_lines [] = [[]]"
| "split_lines (c # cs) =
     (if c = CHR 0x0A then [] # split_lines cs
      else (case split_lines cs of [] \<Rightarrow> [[c]] | l # ls \<Rightarrow> (c # l) # ls))"

text \<open>\<^verbatim>\<open>" ".join(parts)\<close>.\<close>

fun join_space :: "string list \<Rightarrow> string" where
  "join_space [] = []"
| "join_space [s] = s"
| "join_space (s # t # ss) = s @ '' '' @ join_space (t # ss)"

subsection \<open>\<^verbatim>\<open>clean_text\<close> (lines 131--137)\<close>

text \<open>\<^verbatim>\<open>re.sub(r'\s+', ' ', text)\<close>: every maximal run of whitespace becomes one space.\<close>

function collapse_ws :: "string \<Rightarrow> string" where
  "collapse_ws [] = []"
| "collapse_ws (c # cs) =
     (if is_space c then CHR '' '' # collapse_ws (dropWhile is_space cs)
      else c # collapse_ws cs)"
  by pat_completeness auto
termination
  by (relation "measure length") (auto simp: length_dropWhile_le less_Suc_eq_le)

text \<open>
  \<^verbatim>\<open>re.sub(r'[^\w\s.,;:!?()-]', '', text)\<close>: a character is kept when it is a word
  character, whitespace, or one of \<^verbatim>\<open>. , ; : ! ? ( ) -\<close>.
\<close>

definition allowed_char :: "char \<Rightarrow> bool" where
  "allowed_char c = (is_word c \<or> is_space c \<or> c \<in> set ''.,;:!?()-'')"

definition clean_text :: "string \<Rightarrow> string" where
  "clean_text t = strip (filter allowed_char (collapse_ws t))"

subsection \<open>The heading heuristic (lines 213--216)\<close>

text \<open>
  \<^verbatim>\<open>re.match(r'^[0-9]+\.\s+[A-Z]', line)\<close>: a match at the start of the line; what follows
  the capital letter is not looked at. Each repetition is followed by a character outside
  its own class, so the greedy reading is the only one.
\<close>

definition match_enumerated :: "string \<Rightarrow> bool" where
  "match_enumerated line =
     (let r1 = dropWhile is_digit line in
      r1 \<noteq> line \<and>
      (case r1 of
         [] \<Rightarrow> False
       | c # r2 \<Rightarrow>
           c = CHR ''.'' \<and>
           (let r3 = dropWhile is_space r2 in
            r3 \<noteq> r2 \<and> (case r3 of [] \<Rightarrow> False | d # _ \<Rightarrow> is_AZ d))))"

text \<open>\<^verbatim>\<open>$\<close> matches at the end of the string and before a line feed that ends it.\<close>

definition at_dollar :: "string \<Rightarrow> bool" where
  "at_dollar r = (r = [] \<or> r = [CHR 0x0A])"

text \<open>\<^verbatim>\<open>[A-Z][a-z]+\<close> at the start of \<open>s\<close>: the rest of \<open>s\<close> after it, if it matches.\<close>

definition title_word :: "string \<Rightarrow> string option" where
  "title_word s =
     (case s of
        [] \<Rightarrow> None
      | c # cs \<Rightarrow>
          if is_AZ c \<and> dropWhile is_az cs \<noteq> cs then Some (dropWhile is_az cs) else None)"

text \<open>\<^verbatim>\<open>(\s+[A-Z][a-z]+){0,n}$\<close> on the rest of the line.\<close>

fun title_rest :: "nat \<Rightarrow> string \<Rightarrow> bool" where
  "title_rest 0 r = at_dollar r"
| "title_rest (Suc n) r =
     (if at_dollar r then True
      else if dropWhile is_space r = r then False
      else (case title_word (dropWhile is_space r) of
              None \<Rightarrow> False
            | Some r' \<Rightarrow> title_rest n r'))"

text \<open>\<^verbatim>\<open>re.match(r'^[A-Z][a-z]+(\s+[A-Z][a-z]+){0,3}$', line)\<close>.\<close>

definition match_title_case :: "string \<Rightarrow> bool" where
  "match_title_case line =
     (case title_word line of None \<Rightarrow> False | Some r \<Rightarrow> title_rest 3 r)"

text \<open>
  The condition of the \<^verbatim>\<open>if\<close>, with Python's precedence: \<^verbatim>\<open>and\<close> binds tighter than
  \<^verbatim>\<open>or\<close>, so the two length tests guard \<^verbatim>\<open>line.isupper()\<close> only.
\<close>

definition is_heading :: "string \<Rightarrow> bool" where
  "is_heading line =
     ((0 < length line \<and> length line < 100 \<and> isupper line)
      \<or> match_enumerated line
      \<or> match_title_case line)"

subsection \<open>\<^verbatim>\<open>analyze_document_structure\<close> (lines 190--231)\<close>

record doc_section =
  heading :: string
  page :: nat

record doc_structure =
  total_pages :: nat
  sections :: "doc_section list"
  estimated_word_count :: nat

text \<open>\<^verbatim>\<open>len(re.findall(r'\b\w+\b', page_text))\<close>: the number of maximal runs of word characters.\<close>

function count_words :: "string \<Rightarrow> nat" where
  "count_words [] = 0"
| "count_words (c # cs) =
     (if is_word c then Suc (count_words (dropWhile is_word cs)) else count_words cs)"
  by pat_completeness auto
termination
  by (relation "measure length") (auto simp: length_dropWhile_le less_Suc_eq_le)

text \<open>
  The loop over the lines of one page (lines 210--225). The state is the list of closed
  sections and \<^verbatim>\<open>current_section\<close> (\<open>None\<close> for Python's \<^verbatim>\<open>None\<close>); \<open>page_num\<close> is the
  0-based index of the page.
\<close>

fun scan_lines ::
  "nat \<Rightarrow> string list \<Rightarrow> doc_section list \<times> doc_section option
     \<Rightarrow> doc_section list \<times> doc_section option" where
  "scan_lines page_num [] st = st"
| "scan_lines page_num (l # ls) (secs, cur) =
     (let line = strip l in
      if is_heading line then
        scan_lines page_num ls
          ((case cur of None \<Rightarrow> secs | Some s \<Rightarrow> secs @ [s]),
           Some \<lparr>heading = line, page = page_num + 1\<rparr>)
      else scan_lines page_num ls (secs, cur))"

record scan_state =
  st_structure :: doc_structure
  st_combined_text :: string
  st_current_section :: "doc_section option"

text \<open>The loop over the pages (lines 201--225).\<close>

fun scan_pages :: "nat \<Rightarrow> string list \<Rightarrow> scan_state \<Rightarrow> scan_state" where
  "scan_pages page_num [] st = st"
| "scan_pages page_num (page_text # rest) st =
     (let combined = st_combined_text st @ page_text;
          words = count_words page_text;
          (secs, cur) = scan_lines page_num (split_lines page_text)
                          (sections (st_structure st), st_current_section st)
      in scan_pages (page_num + 1) rest
           \<lparr>st_structure = (st_structure st)
              \<lparr>sections := secs,
               estimated_word_count := estimated_word_count (st_structure st) + words\<rparr>,
            st_combined_text = combined,
            st_current_section = cur\<rparr>)"

definition analyze_document_structure :: "string list \<Rightarrow> doc_structure \<times> string" where
  "analyze_document_structure text_by_page =
     (let st = scan_pages 0 text_by_page
                 \<lparr>st_structure =
                    \<lparr>total_pages = length text_by_page, sections = [], estimated_word_count = 0\<rparr>,
                  st_combined_text = [],
                  st_current_section = None\<rparr>;
          structure = (case st_current_section st of
                         None \<Rightarrow> st_structure st
                       | Some s \<Rightarrow> (st_structure st)\<lparr>sections := sections (st_structure st) @ [s]\<rparr>)
      in (structure, st_combined_text st))"

subsection \<open>Errors and the libraries\<close>

text \<open>A Python exception caught by \<^verbatim>\<open>except Exception\<close>, with its message.\<close>

datatype error = Exception string

definition bind_err :: "error + 'a \<Rightarrow> ('a \<Rightarrow> error + 'b) \<Rightarrow> error + 'b" where
  "bind_err m f = (case m of Inl e \<Rightarrow> Inl e | Inr x \<Rightarrow> f x)"

text \<open>A byte string: a \<^typ>\<open>char\<close> is a byte.\<close>

type_synonym bytes = string

text \<open>
  An entity of the recognizer (\<^verbatim>\<open>ent.text\<close>, \<^verbatim>\<open>ent.label_\<close>) and of the result
  (\<^verbatim>\<open>{"text": ..., "label": ...}\<close>).
\<close>

record entity =
  ent_text :: string
  ent_label :: string

text \<open>
  A page of the opened document: its text (\<^verbatim>\<open>page.get_text()\<close>) and the cross-reference
  numbers \<^verbatim>\<open>img[0]\<close> of \<^verbatim>\<open>page.get_images(full=True)\<close>, in the order of that list.
\<close>

record pdf_page =
  page_text :: string
  page_images :: "nat list"

type_synonym document = "pdf_page list"

text \<open>\<^verbatim>\<open>doc.extract_image(xref)\<close>: the keys \<^verbatim>\<open>"image"\<close> and \<^verbatim>\<open>"ext"\<close>.\<close>

record base_image =
  bi_image :: bytes
  bi_ext :: string

record position =
  pos_x :: real
  pos_y :: real
  pos_width :: real
  pos_height :: real

text \<open>
  \<^verbatim>\<open>np.array(image)\<close>: a two-dimensional array (one value per pixel), or a three-dimensional
  array of unsigned bytes with \<^verbatim>\<open>shape[2]\<close> channels (rows of pixels, a pixel being the list
  of its channel values).
\<close>

datatype ndarray = Arr2 "8 word list list" | Arr3 nat "8 word list list list"

text \<open>
  The libraries. \<open>'im\<close> is the type of a PIL image. \<open>fitz_open\<close> is given the bytes saved
  at \<^verbatim>\<open>file_path\<close>. \<open>np_divide eh ev\<close> is the double that NumPy computes for
  \<^verbatim>\<open>eh / (ev + 1e-10)\<close>, as a real number.
\<close>

record 'im pdf_env =
  secure_filename :: "string \<Rightarrow> string"
  fitz_open :: "bytes \<Rightarrow> error + document"
  extract_image :: "document \<Rightarrow> nat \<Rightarrow> error + base_image"
  get_image_bbox :: "pdf_page \<Rightarrow> nat \<Rightarrow> error + position"
  Image_open :: "bytes \<Rightarrow> error + 'im"
  image_mode :: "'im \<Rightarrow> string"
  image_convert_RGB :: "'im \<Rightarrow> error + 'im"
  image_save_PNG :: "'im \<Rightarrow> error + bytes"
  image_size :: "'im \<Rightarrow> nat \<times> nat"
  image_to_string :: "'im \<Rightarrow> error + string"
  b64encode :: "bytes \<Rightarrow> string"
  b64decode :: "string \<Rightarrow> error + bytes"
  np_array :: "'im \<Rightarrow> error + ndarray"
  np_divide :: "nat \<Rightarrow> nat \<Rightarrow> real"
  nlp_ents :: "string \<Rightarrow> entity list"
  nlp_sents :: "string \<Rightarrow> string list"

subsection \<open>\<^verbatim>\<open>extract_entities\<close> (lines 139--168)\<close>

text \<open>\<^verbatim>\<open>re.match(r'^\d+$', s)\<close>.\<close>

definition match_digits :: "string \<Rightarrow> bool" where
  "match_digits s = (dropWhile is_digit s \<noteq> s \<and> at_dollar (dropWhile is_digit s))"

text \<open>\<^verbatim>\<open>entity_key = (ent.text.lower(), ent.label_)\<close>.\<close>

definition entity_key :: "entity \<Rightarrow> string \<times> string" where
  "entity_key e = (lower (ent_text e), ent_label e)"

text \<open>The loop over \<^verbatim>\<open>doc.ents\<close>, with the list \<^verbatim>\<open>entities\<close> and the set \<^verbatim>\<open>seen_entities\<close>.\<close>

fun entity_loop ::
  "entity list \<Rightarrow> entity list \<Rightarrow> (string \<times> string) set \<Rightarrow> entity list" where
  "entity_loop [] entities seen_entities = entities"
| "entity_loop (e # ents) entities seen_entities =
     (if length (strip (ent_text e)) \<le> 1 then entity_loop ents entities seen_entities
      else if match_digits (strip (ent_text e)) then entity_loop ents entities seen_entities
      else if entity_key e \<in> seen_entities then entity_loop ents entities seen_entities
      else entity_loop ents
             (entities @ [\<lparr>ent_text = ent_text e, ent_label = ent_label e\<rparr>])
             (insert (entity_key e) seen_entities))"

text \<open>The argument of \<^verbatim>\<open>nlp\<close> in line 142: \<^verbatim>\<open>clean_text(text[:100000])\<close>.\<close>

definition ner_input :: "string \<Rightarrow> string" where
  "ner_input text = clean_text (take 100000 text)"

definition extract_entities :: "'im pdf_env \<Rightarrow> string \<Rightarrow> entity list" where
  "extract_entities env text = entity_loop (nlp_ents env (ner_input text)) [] {}"

subsection \<open>\<^verbatim>\<open>summarize_text\<close> (lines 170--188)\<close>

definition summarize_text :: "'im pdf_env \<Rightarrow> string \<Rightarrow> string" where
  "summarize_text env text =
     (let clean = clean_text text;
          summary_sentences = take 5 (nlp_sents env (take 10000 clean));
          summary = join_space summary_sentences
      in if length summary < 100 \<and> length clean > 100 then take 300 clean @ ''...''
         else summary)"

subsection \<open>\<^verbatim>\<open>detect_charts\<close> (lines 78--129)\<close>

text \<open>
  \<^verbatim>\<open>len(np.unique(img_array.reshape(-1, img_array.shape[2]), axis=0))\<close>: the number of
  distinct pixels.
\<close>

definition unique_colors :: "8 word list list list \<Rightarrow> nat" where
  "unique_colors rows = length (remdups (concat rows))"

text \<open>
  \<^verbatim>\<open>np.diff\<close> on unsigned bytes subtracts modulo 256 and \<^verbatim>\<open>np.abs\<close> leaves an unsigned
  byte as it is; \<^verbatim>\<open>np.sum\<close> adds the bytes up in a 64-bit integer, which an image of
  fewer than \<open>2 ^ 56\<close> values cannot overflow.
\<close>

definition adjacent :: "'a list \<Rightarrow> ('a \<times> 'a) list" where
  "adjacent xs = zip xs (tl xs)"

definition pixel_diff :: "8 word list \<times> 8 word list \<Rightarrow> nat" where
  "pixel_diff pq = sum_list (map (\<lambda>(a, b). unat (b - a)) (zip (fst pq) (snd pq)))"

text \<open>\<^verbatim>\<open>np.sum(np.abs(np.diff(img_array, axis=0)))\<close>: differences between rows.\<close>

definition edges_h :: "8 word list list list \<Rightarrow> nat" where
  "edges_h rows =
     sum_list (map (\<lambda>(r, r'). sum_list (map pixel_diff (zip r r'))) (adjacent rows))"

text \<open>\<^verbatim>\<open>np.sum(np.abs(np.diff(img_array, axis=1)))\<close>: differences inside each row.\<close>

definition edges_v :: "8 word list list list \<Rightarrow> nat" where
  "edges_v rows = sum_list (map (\<lambda>r. sum_list (map pixel_diff (adjacent r))) rows)"

text \<open>
  The argument \<open>a\<close> is the result of \<^verbatim>\<open>np.array(image)\<close>, which raises inside the
  \<^verbatim>\<open>try\<close> when the image data cannot be loaded. The ratio
  \<^verbatim>\<open>np.sum(edges_h) / (np.sum(edges_v) + 1e-10)\<close> is computed by \<open>np_divide\<close>; a double is
  above the literal \<^verbatim>\<open>1.2\<close> (below \<^verbatim>\<open>0.8\<close>) exactly when it is above the number 1.2
  (below 0.8), the literal being the double nearest to it.
\<close>

definition detect_charts :: "'im pdf_env \<Rightarrow> error + ndarray \<Rightarrow> bool \<times> string option" where
  "detect_charts env a =
     (case a of
        Inl e \<Rightarrow> (False, None)
      | Inr (Arr2 px) \<Rightarrow> (False, None)
      | Inr (Arr3 channels rows) \<Rightarrow>
          if channels = 1 then (False, None)
          else
            (let img_array = (if channels = 4 then map (map (take 3)) rows else rows);
                 colors = unique_colors img_array;
                 ratio = np_divide env (edges_h img_array) (edges_v img_array);
                 is_chart = (colors < 50 \<and> (ratio > 0.5 \<and> ratio < 2.0));
                 chart_type =
                   (if is_chart then
                      (if ratio > 1.2 then Some ''bar_chart''
                       else if ratio < 0.8 then Some ''line_chart''
                       else Some ''other_chart'')
                    else None)
             in (is_chart, chart_type)))"

subsection \<open>\<^verbatim>\<open>extract_text_from_pdf\<close> and \<^verbatim>\<open>extract_images_from_pdf\<close> (lines 23--76)\<close>

definition extract_text_from_pdf :: "'im pdf_env \<Rightarrow> bytes \<Rightarrow> error + string list" where
  "extract_text_from_pdf env file = bind_err (fitz_open env file) (\<lambda>doc. Inr (map page_text doc))"

text \<open>
  An entry of \<^verbatim>\<open>image_data\<close>. The keys \<^verbatim>\<open>"is_chart"\<close> and \<^verbatim>\<open>"chart_type"\<close> are added by
  the request handler; \<open>None\<close> is a key that is absent.
\<close>

record image_record =
  im_page :: nat
  im_position :: position
  im_base64 :: string
  im_size :: "nat \<times> nat"
  im_format :: string
  im_ocr_text :: string
  is_chart :: "bool option"
  chart_type :: "string option"

text \<open>Lines 45--53: the embedded image is extracted, opened, and converted when it is CMYK.\<close>

definition decode_image :: "'im pdf_env \<Rightarrow> document \<Rightarrow> nat \<Rightarrow> error + base_image \<times> 'im" where
  "decode_image env doc xref =
     bind_err (extract_image env doc xref) (\<lambda>base_image.
     bind_err (Image_open env (bi_image base_image)) (\<lambda>image.
     bind_err (if image_mode env image = ''CMYK'' then image_convert_RGB env image else Inr image)
       (\<lambda>image'. Inr (base_image, image'))))"

text \<open>
  The body of the \<^verbatim>\<open>try\<close> (lines 45--71). The dictionary display is evaluated in the
  order it is written, so text recognition comes last.
\<close>

definition process_image ::
  "'im pdf_env \<Rightarrow> document \<Rightarrow> nat \<Rightarrow> pdf_page \<Rightarrow> nat \<Rightarrow> error + image_record" where
  "process_image env doc page_index pg xref =
     bind_err (decode_image env doc xref) (\<lambda>(base_image, image).
     bind_err (image_save_PNG env image) (\<lambda>buffered.
     bind_err (get_image_bbox env pg xref) (\<lambda>rect.
     bind_err (image_to_string env image) (\<lambda>recognized.
       Inr \<lparr>im_page = page_index + 1,
            im_position = rect,
            im_base64 = b64encode env buffered,
            im_size = image_size env image,
            im_format = bi_ext base_image,
            im_ocr_text = recognized,
            is_chart = None,
            chart_type = None\<rparr>))))"

text \<open>The loop over the images of one page: an exception skips the image.\<close>

fun image_loop ::
  "'im pdf_env \<Rightarrow> document \<Rightarrow> nat \<Rightarrow> pdf_page \<Rightarrow> nat list \<Rightarrow> image_record list
     \<Rightarrow> image_record list" where
  "image_loop env doc page_index pg [] image_data = image_data"
| "image_loop env doc page_index pg (xref # imgs) image_data =
     (case process_image env doc page_index pg xref of
        Inl e \<Rightarrow> image_loop env doc page_index pg imgs image_data
      | Inr r \<Rightarrow> image_loop env doc page_index pg imgs (image_data @ [r]))"

fun page_loop ::
  "'im pdf_env \<Rightarrow> document \<Rightarrow> nat \<Rightarrow> pdf_page list \<Rightarrow> image_record list \<Rightarrow> image_record list" where
  "page_loop env doc page_index [] image_data = image_data"
| "page_loop env doc page_index (pg # pgs) image_data =
     page_loop env doc (page_index + 1) pgs
       (image_loop env doc page_index pg (page_images pg) image_data)"

definition extract_images_from_pdf :: "'im pdf_env \<Rightarrow> bytes \<Rightarrow> error + image_record list" where
  "extract_images_from_pdf env file =
     bind_err (fitz_open env file) (\<lambda>doc. Inr (page_loop env doc 0 doc []))"

subsection \<open>\<^verbatim>\<open>analyze_pdf\<close> (lines 249--300)\<close>

text \<open>
  The body of the loop over \<^verbatim>\<open>images\<close> (lines 273--286). Every entry built by
  \<open>process_image\<close> has the key \<^verbatim>\<open>"base64"\<close>. \<open>detect_charts\<close> catches its own exceptions,
  so the handler of line 284 is reached from \<^verbatim>\<open>b64decode\<close> and \<^verbatim>\<open>Image.open\<close> only.
  \<^verbatim>\<open>if chart_type:\<close> is false for \<^verbatim>\<open>None\<close> and for the empty string.
\<close>

definition classify_image :: "'im pdf_env \<Rightarrow> image_record \<Rightarrow> image_record" where
  "classify_image env img_data =
     (case bind_err (b64decode env (im_base64 img_data)) (Image_open env) of
        Inl e \<Rightarrow> img_data\<lparr>is_chart := Some False\<rparr>
      | Inr img \<Rightarrow>
          (case detect_charts env (np_array env img) of
             (c, t) \<Rightarrow>
               (case t of
                  None \<Rightarrow> img_data\<lparr>is_chart := Some c\<rparr>
                | Some s \<Rightarrow>
                    if s = [] then img_data\<lparr>is_chart := Some c\<rparr>
                    else img_data\<lparr>is_chart := Some c, chart_type := Some s\<rparr>)))"

record analysis_result =
  res_filename :: string
  res_summary :: string
  res_structure :: doc_structure
  res_entities :: "entity list"
  res_images :: "image_record list"
  res_page_count :: nat
  res_text_by_page :: "string list"

text \<open>\<^verbatim>\<open>request.files\<close>: the uploaded file under the key \<^verbatim>\<open>"file"\<close>, if there is one.\<close>

record upload =
  up_filename :: string
  up_content :: bytes

datatype response = Bad_Request string | Analysis analysis_result

text \<open>
  The handler. \<open>Inl\<close> is an exception that leaves it (no \<^verbatim>\<open>try\<close> surrounds the two calls
  that open the document).
\<close>

definition analyze_pdf :: "'im pdf_env \<Rightarrow> upload option \<Rightarrow> error + response" where
  "analyze_pdf env files =
     (case files of
        None \<Rightarrow> Inr (Bad_Request ''No file part'')
      | Some file \<Rightarrow>
          if up_filename file = [] then Inr (Bad_Request ''No selected file'')
          else
            bind_err (extract_text_from_pdf env (up_content file)) (\<lambda>text_by_page.
              (case analyze_document_structure text_by_page of
                 (structure, combined_text) \<Rightarrow>
                   bind_err (extract_images_from_pdf env (up_content file)) (\<lambda>images.
                     Inr (Analysis
                       \<lparr>res_filename = secure_filename env (up_filename file),
                        res_summary = summarize_text env combined_text,
                        res_structure = structure,
                        res_entities = extract_entities env combined_text,
                        res_images = map (classify_image env) images,
                        res_page_count = length text_by_page,
                        res_text_by_page = text_by_page\<rparr>)))))"

subsection \<open>The edge sums as they are described\<close>

text \<open>
  The description of the classifier takes \<open>edge_h\<close> and \<open>edge_v\<close> to be the sums of the
  absolute differences between vertically and between horizontally adjacent pixel values.
  These are those sums, for comparison with \<open>edges_h\<close> and \<open>edges_v\<close> of the source.
\<close>

definition abs_pixel_diff :: "8 word list \<times> 8 word list \<Rightarrow> nat" where
  "abs_pixel_diff pq =
     sum_list (map (\<lambda>(a, b). nat \<bar>int (unat b) - int (unat a)\<bar>) (zip (fst pq) (snd pq)))"

definition abs_edges_h :: "8 word list list list \<Rightarrow> nat" where
  "abs_edges_h rows =
     sum_list (map (\<lambda>(r, r'). sum_list (map abs_pixel_diff (zip r r'))) (adjacent rows))"

definition abs_edges_v :: "8 word list list list \<Rightarrow> nat" where
  "abs_edges_v rows = sum_list (map (\<lambda>r. sum_list (map abs_pixel_diff (adjacent r))) rows)"

subsection \<open>The entities that survive filtering\<close>

text \<open>
  The filter of the entity extractor in the words of its description: an entity survives
  when its trimmed text is longer than one character and is not purely numeric (a non-empty
  string of digits). The loop itself tests \<open>match_digits\<close>.
\<close>

definition purely_numeric :: "string \<Rightarrow> bool" where
  "purely_numeric s = (s \<noteq> [] \<and> filter is_digit s = s)"

definition survives :: "entity \<Rightarrow> bool" where
  "survives e = (1 < length (strip (ent_text e)) \<and> \<not> purely_numeric (strip (ent_text e)))"

subsection \<open>The embedded images of a document, in source order\<close>

text \<open>
  The images of the pages from index \<open>n\<close> on: page order, then the order of the page's image
  list. An image is given with the 0-based index of its page, the page and its
  cross-reference number.
\<close>

fun images_from :: "nat \<Rightarrow> pdf_page list \<Rightarrow> (nat \<times> pdf_page \<times> nat) list" where
  "images_from n [] = []"
| "images_from n (pg # pgs) = map (\<lambda>xref. (n, pg, xref)) (page_images pg) @ images_from (Suc n) pgs"

definition all_images :: "document \<Rightarrow> (nat \<times> pdf_page \<times> nat) list" where
  "all_images doc = images_from 0 doc"

definition process_at ::
  "'im pdf_env \<Rightarrow> document \<Rightarrow> nat \<times> pdf_page \<times> nat \<Rightarrow> error + image_record" where
  "process_at env doc t = (case t of (page_index, pg, xref) \<Rightarrow> process_image env doc page_index pg xref)"

text \<open>The values of the results that are not errors, in order.\<close>

fun successes :: "(error + 'a) list \<Rightarrow> 'a list" where
  "successes [] = []"
| "successes (Inl e # rs) = successes rs"
| "successes (Inr r # rs) = r # successes rs"

subsection \<open>A small document and its libraries\<close>

text \<open>
  A document of two pages with three embedded images, used for the closed instances below.
  The images have the cross-reference numbers 10, 20 and 30, and an opened image is named by
  its bytes. Image 20 is corrupt (\<^verbatim>\<open>Image.open\<close> raises); image 10 is a 2 by 2 RGB bitmap,
  image 30 a grayscale one. The division is the exact one.
\<close>

definition edge_ratio :: "nat \<Rightarrow> nat \<Rightarrow> real" where
  "edge_ratio eh ev = real eh / (real ev + 1 / 10 ^ 10)"

definition demo_doc :: document where
  "demo_doc =
     [\<lparr>page_text = ''foo'', page_images = [10, 20]\<rparr>,
      \<lparr>page_text = ''bar'', page_images = [30]\<rparr>]"

definition demo_rgb :: ndarray where
  "demo_rgb = Arr3 3 [[[0, 0, 0], [1, 0, 0]], [[1, 0, 0], [2, 0, 0]]]"

definition demo_env :: "string pdf_env" where
  "demo_env =
     \<lparr>secure_filename = (\<lambda>name. name),
      fitz_open = (\<lambda>data. Inr demo_doc),
      extract_image =
        (\<lambda>doc xref.
           Inr \<lparr>bi_image = (if xref = 10 then ''rgb'' else if xref = 20 then ''corrupt'' else ''gray''),
                bi_ext = ''png''\<rparr>),
      get_image_bbox = (\<lambda>pg xref. Inr \<lparr>pos_x = 0, pos_y = 0, pos_width = 2, pos_height = 2\<rparr>),
      Image_open =
        (\<lambda>data. if data = ''corrupt'' then Inl (Exception ''cannot identify image file'')
                else Inr data),
      image_mode = (\<lambda>image. ''RGB''),
      image_convert_RGB = Inr,
      image_save_PNG = Inr,
      image_size = (\<lambda>image. (2, 2)),
      image_to_string = (\<lambda>image. Inr []),
      b64encode = (\<lambda>data. data),
      b64decode = Inr,
      np_array = (\<lambda>image. if image = ''rgb'' then Inr demo_rgb else Inr (Arr2 [[0, 1], [1, 2]])),
      np_divide = edge_ratio,
      nlp_ents =
        (\<lambda>t. [\<lparr>ent_text = ''Ada'', ent_label = ''PERSON''\<rparr>,
              \<lparr>ent_text = ''42'', ent_label = ''CARDINAL''\<rparr>,
              \<lparr>ent_text = ''ADA'', ent_label = ''PERSON''\<rparr>,
              \<lparr>ent_text = ''Ada'', ent_label = ''ORG''\<rparr>]),
      nlp_sents = (\<lambda>t. [take 10 t])\<rparr>"

text \<open>The same libraries, with a text recognizer that raises on the grayscale image.\<close>

definition ocr_fail_env :: "string pdf_env" where
  "ocr_fail_env =
     demo_env\<lparr>image_to_string :=
       (\<lambda>image. if image = ''gray'' then Inl (Exception ''TesseractError'') else Inr [])\<rparr>"

text \<open>
  Two sentence segmenters that cut a text into pieces of 2 and of 30 characters, and a
  recognizer that returns seven entities whatever the text.
\<close>

fun chunks :: "nat \<Rightarrow> 'a list \<Rightarrow> 'a list list" where
  "chunks n [] = []"
| "chunks n (x # xs) = (if n = 0 then [] else take n (x # xs) # chunks n (drop n (x # xs)))"

definition short_sentence_env :: "string pdf_env" where
  "short_sentence_env = demo_env\<lparr>nlp_sents := chunks 2\<rparr>"

definition long_sentence_env :: "string pdf_env" where
  "long_sentence_env = demo_env\<lparr>nlp_sents := chunks 30\<rparr>"

definition entity_env :: "string pdf_env" where
  "entity_env =
     demo_env\<lparr>nlp_ents :=
       (\<lambda>t. [\<lparr>ent_text = ''Bob'', ent_label = ''PERSON''\<rparr>,
             \<lparr>ent_text = ''Ada'', ent_label = ''PERSON''\<rparr>,
             \<lparr>ent_text = '' 42 '', ent_label = ''CARDINAL''\<rparr>,
             \<lparr>ent_text = ''x'', ent_label = ''ORG''\<rparr>,
             \<lparr>ent_text = ''Bob'', ent_label = ''PERSON''\<rparr>,
             \<lparr>ent_text = ''ADA'', ent_label = ''PERSON''\<rparr>,
             \<lparr>ent_text = ''Ada'', ent_label = ''ORG''\<rparr>])\<rparr>"

definition demo_upload :: upload where
  "demo_upload = \<lparr>up_filename = ''a.pdf'', up_content = ''%PDF''\<rparr>"

section \<open>Properties\<close>

subsection \<open>The structure analyzer\<close>

lemma scan_pages_combined_text:
  "st_combined_text (scan_pages n ps st) = st_combined_text st @ concat ps"
  by (induction ps arbitrary: n st) (simp_all add: Let_def split: prod.splits)

lemma analyze_structure_combined:
  "snd (analyze_document_structure ps) = concat ps"
  by (simp add: analyze_document_structure_def Let_def scan_pages_combined_text)

lemma sections_single_page:
  "sections (fst (analyze_document_structure [p])) =
     (case scan_lines 0 (split_lines p) ([], None) of
        (secs, cur) \<Rightarrow> (case cur of None \<Rightarrow> secs | Some s \<Rightarrow> secs @ [s]))"
  by (simp add: analyze_document_structure_def Let_def split: prod.splits option.splits)

lemma strip_id:
  assumes "s \<noteq> []" "\<not> is_space (hd s)" "\<not> is_space (last s)"
  shows "strip s = s"
proof -
  have a: "dropWhile is_space s = s" using assms(1,2) by (cases s) simp_all
  have "rev s \<noteq> []" "\<not> is_space (hd (rev s))" using assms(1,3) by (simp_all add: hd_rev)
  then have b: "dropWhile is_space (rev s) = rev s" by (cases "rev s") simp_all
  show ?thesis by (simp add: strip_def a b)
qed

lemma split_lines_single: "CHR 0x0A \<notin> set s \<Longrightarrow> split_lines s = [s]"
  by (induction s) auto

lemma enumerated_prefix: "match_enumerated (''1. A'' @ rest)"
  by (simp add: match_enumerated_def is_digit_def is_space_def is_AZ_def)

lemma scan_lines_heading:
  "is_heading (strip l) \<Longrightarrow>
   scan_lines n [l] (secs, None) = (secs, Some \<lparr>heading = strip l, page = n + 1\<rparr>)"
  by simp

text \<open>
  Claim C1. The claim bounds every heading by 100 characters. In the source the length test
  guards the upper-case alternative only: a line of 104 characters that starts with an
  enumerated prefix qualifies as a heading, and opens a section on its page.
\<close>

theorem long_enumerated_line_is_heading:
  "length (''1. A'' @ replicate 100 (CHR ''x'')) = 104 \<and>
   is_heading (''1. A'' @ replicate 100 (CHR ''x'')) \<and>
   sections (fst (analyze_document_structure [''1. A'' @ replicate 100 (CHR ''x'')])) =
     [\<lparr>heading = ''1. A'' @ replicate 100 (CHR ''x''), page = 1\<rparr>]"
proof -
  let ?l = "''1. A'' @ replicate 100 (CHR ''x'')"
  have h: "is_heading ?l" by (simp only: is_heading_def enumerated_prefix simp_thms)
  have s: "strip ?l = ?l" by (rule strip_id) (simp_all add: is_space_def)
  have sp: "split_lines ?l = [?l]" by (rule split_lines_single) simp
  have "scan_lines 0 [?l] ([], None) = ([], Some \<lparr>heading = ?l, page = 1\<rparr>)"
    using scan_lines_heading [of ?l 0 "[]"] h s by simp
  then have "sections (fst (analyze_document_structure [?l])) = [\<lparr>heading = ?l, page = 1\<rparr>]"
    by (simp only: sections_single_page sp prod.case option.case append_Nil)
  moreover have "length ?l = 104" by simp
  ultimately show ?thesis using h by blast
qed

subsection \<open>The request handler\<close>

lemma analyze_pdf_Analysis:
  assumes "analyze_pdf env files = Inr (Analysis res)"
  obtains upl tbp imgs where
    "files = Some upl" "up_filename upl \<noteq> []"
    "extract_text_from_pdf env (up_content upl) = Inr tbp"
    "extract_images_from_pdf env (up_content upl) = Inr imgs"
    "res = \<lparr>res_filename = secure_filename env (up_filename upl),
            res_summary = summarize_text env (snd (analyze_document_structure tbp)),
            res_structure = fst (analyze_document_structure tbp),
            res_entities = extract_entities env (snd (analyze_document_structure tbp)),
            res_images = map (classify_image env) imgs,
            res_page_count = length tbp,
            res_text_by_page = tbp\<rparr>"
  using assms
  by (auto simp: analyze_pdf_def bind_err_def split: option.splits if_splits sum.splits prod.splits)

lemma demo_text: "extract_text_from_pdf demo_env data = Inr [''foo'', ''bar'']"
  by (simp add: extract_text_from_pdf_def bind_err_def demo_env_def demo_doc_def)

lemma demo_images_Inr:
  "extract_images_from_pdf demo_env data = Inr (page_loop demo_env demo_doc 0 demo_doc [])"
  by (simp add: extract_images_from_pdf_def bind_err_def demo_env_def)

lemma demo_analysis:
  "\<exists>res. analyze_pdf demo_env (Some demo_upload) = Inr (Analysis res) \<and>
     res_text_by_page res = [''foo'', ''bar''] \<and>
     res_images res = map (classify_image demo_env) (page_loop demo_env demo_doc 0 demo_doc [])"
  by (simp add: analyze_pdf_def demo_text demo_images_Inr bind_err_def demo_upload_def
      split: prod.splits)

text \<open>
  Claim C10. The combined text returned by the structure analyzer is the concatenation of
  the page texts in page order, with nothing between two pages; the request handler passes
  this text to entity extraction and to summarization.
\<close>

theorem combined_text_is_concatenation:
  "snd (analyze_document_structure text_by_page) = concat text_by_page \<and>
   (analyze_pdf env files = Inr (Analysis res) \<longrightarrow>
      res_entities res = extract_entities env (concat (res_text_by_page res)) \<and>
      res_summary res = summarize_text env (concat (res_text_by_page res)))"
proof (rule conjI)
  show "snd (analyze_document_structure text_by_page) = concat text_by_page"
    by (rule analyze_structure_combined)
next
  show "analyze_pdf env files = Inr (Analysis res) \<longrightarrow>
      res_entities res = extract_entities env (concat (res_text_by_page res)) \<and>
      res_summary res = summarize_text env (concat (res_text_by_page res))"
  proof (rule impI)
    assume "analyze_pdf env files = Inr (Analysis res)"
    then show "res_entities res = extract_entities env (concat (res_text_by_page res)) \<and>
      res_summary res = summarize_text env (concat (res_text_by_page res))"
      by (rule analyze_pdf_Analysis) (simp add: analyze_structure_combined)
  qed
qed

text \<open>
  The pages \<open>foo\<close> and \<open>bar\<close> are analysed as the single word \<open>foobar\<close>.
\<close>

theorem combined_text_is_concatenation_witness:
  "snd (analyze_document_structure [''foo'', ''bar'']) = ''foobar'' \<and>
   (\<exists>res. analyze_pdf demo_env (Some demo_upload) = Inr (Analysis res) \<and>
      res_entities res = extract_entities demo_env ''foobar'' \<and>
      res_summary res = summarize_text demo_env ''foobar'')"
proof -
  obtain res where r: "analyze_pdf demo_env (Some demo_upload) = Inr (Analysis res)"
    "res_text_by_page res = [''foo'', ''bar'']"
    using demo_analysis by blast
  show ?thesis
    using combined_text_is_concatenation [of "[''foo'', ''bar'']" demo_env "Some demo_upload" res] r
    by auto
qed

subsection \<open>Image extraction\<close>

lemma successes_append: "successes (xs @ ys) = successes xs @ successes ys"
  by (induction xs rule: successes.induct) simp_all

lemma image_loop_successes:
  "image_loop env doc i pg xs acc = acc @ successes (map (process_image env doc i pg) xs)"
  by (induction xs arbitrary: acc) (simp_all split: sum.splits)

lemma page_loop_successes:
  "page_loop env doc n pgs acc = acc @ successes (map (process_at env doc) (images_from n pgs))"
proof (induction pgs arbitrary: n acc)
  case Nil
  then show ?case by simp
next
  case (Cons pg pgs)
  have "process_at env doc \<circ> (\<lambda>xref. (n, pg, xref)) = process_image env doc n pg"
    by (rule ext) (simp add: process_at_def)
  then show ?case
    by (simp add: Cons.IH image_loop_successes successes_append)
qed

lemma extract_images_successes:
  "fitz_open env data = Inr doc \<Longrightarrow>
   extract_images_from_pdf env data = Inr (successes (map (process_at env doc) (all_images doc)))"
  by (simp add: extract_images_from_pdf_def bind_err_def page_loop_successes all_images_def)

lemma successes_all_Inr:
  "\<forall>x \<in> set xs. \<exists>r. f x = Inr r \<Longrightarrow> map Inr (successes (map f xs)) = map f xs"
  by (induction xs) auto

lemma length_successes_all_Inr:
  "\<forall>x \<in> set xs. \<exists>r. f x = Inr r \<Longrightarrow> length (successes (map f xs)) = length xs"
  by (induction xs) auto

lemma decode_failure_process_image:
  "decode_image env doc xref = Inl e \<Longrightarrow> process_image env doc i pg xref = Inl e"
  by (simp add: process_image_def bind_err_def)

text \<open>
  Claim C7, as amended. When the document opens, exactly one of its \<open>K\<close> embedded images
  fails to decode and every other image is processed without an exception in any step,
  image extraction returns normally with \<open>K - 1\<close> records: the records of the other images,
  in source order (page order, then the order of the page's image list). The corrupt image
  contributes no record.
\<close>

theorem one_corrupt_image_is_skipped:
  assumes opened: "fitz_open env data = Inr doc"
    and k: "k < length (all_images doc)"
    and at_k: "all_images doc ! k = (i, pg, xref)"
    and corrupt: "decode_image env doc xref = Inl e"
    and others: "\<forall>j < length (all_images doc). j \<noteq> k \<longrightarrow>
                   (\<exists>r. process_at env doc (all_images doc ! j) = Inr r)"
  shows "\<exists>rs. extract_images_from_pdf env data = Inr rs \<and>
           length rs = length (all_images doc) - 1 \<and>
           map Inr rs =
             map (process_at env doc) (take k (all_images doc) @ drop (Suc k) (all_images doc))"
proof -
  let ?imgs = "all_images doc"
  let ?f = "process_at env doc"
  have split: "?imgs = take k ?imgs @ ?imgs ! k # drop (Suc k) ?imgs"
    using k by (rule id_take_nth_drop)
  have fail: "?f (?imgs ! k) = Inl e"
    using at_k corrupt by (simp add: process_at_def decode_failure_process_image)
  have pre: "\<forall>x \<in> set (take k ?imgs). \<exists>r. ?f x = Inr r"
  proof
    fix x assume "x \<in> set (take k ?imgs)"
    then obtain j where "j < k" "x = ?imgs ! j"
      using k by (auto simp: in_set_conv_nth)
    then show "\<exists>r. ?f x = Inr r" using others k by auto
  qed
  have post: "\<forall>x \<in> set (drop (Suc k) ?imgs). \<exists>r. ?f x = Inr r"
  proof
    fix x assume "x \<in> set (drop (Suc k) ?imgs)"
    then obtain j where "j < length ?imgs - Suc k" "x = ?imgs ! (Suc k + j)"
      by (auto simp: in_set_conv_nth)
    then show "\<exists>r. ?f x = Inr r" using others by auto
  qed
  have "successes (map ?f ?imgs) =
        successes (map ?f (take k ?imgs)) @ successes (map ?f (drop (Suc k) ?imgs))"
    by (subst split) (simp add: successes_append fail)
  then have eq: "successes (map ?f ?imgs) =
        successes (map ?f (take k ?imgs @ drop (Suc k) ?imgs))"
    by (simp add: successes_append)
  have all: "\<forall>x \<in> set (take k ?imgs @ drop (Suc k) ?imgs). \<exists>r. ?f x = Inr r"
    using pre post by auto
  have len: "length (successes (map ?f ?imgs)) = length ?imgs - 1"
    using length_successes_all_Inr [OF all] k by (simp add: eq)
  have "map Inr (successes (map ?f ?imgs)) = map ?f (take k ?imgs @ drop (Suc k) ?imgs)"
    using successes_all_Inr [OF all] by (simp only: eq)
  with len extract_images_successes [OF opened] show ?thesis by blast
qed

lemma recognition_failure_process_image:
  assumes "decode_image env doc xref = Inr (b, im)" and "image_to_string env im = Inl e"
  shows "\<exists>e'. process_image env doc i pg xref = Inl e'"
  using assms by (simp add: process_image_def bind_err_def split: sum.splits)

text \<open>
  Claim C2, as amended. Text recognition is the last step inside the \<^verbatim>\<open>try\<close> of the image
  loop: when an image decodes but its recognition raises, the exception is caught, the
  image is skipped exactly as a corrupt one is (no record is appended for it), the loop
  goes on with the remaining images, and extraction returns normally with the records of
  the images before and after it.
\<close>

theorem recognition_failure_skips_image:
  assumes "decode_image env doc xref = Inr (b, im)" and "image_to_string env im = Inl e"
  shows "(\<exists>e'. process_image env doc page_index pg xref = Inl e') \<and>
         image_loop env doc page_index pg (xref # imgs) image_data =
           image_loop env doc page_index pg imgs image_data \<and>
         (fitz_open env data = Inr doc \<and> all_images doc = pre @ (page_index, pg, xref) # post \<longrightarrow>
            extract_images_from_pdf env data =
              Inr (successes (map (process_at env doc) pre) @
                   successes (map (process_at env doc) post)))"
proof -
  obtain e' where e': "process_image env doc page_index pg xref = Inl e'"
    using recognition_failure_process_image [OF assms] by blast
  then have "process_at env doc (page_index, pg, xref) = Inl e'" by (simp add: process_at_def)
  then show ?thesis
    using e' by (auto simp: extract_images_successes successes_append)
qed

lemma demo_all_images:
  "all_images demo_doc =
     [(0, \<lparr>page_text = ''foo'', page_images = [10, 20]\<rparr>, 10),
      (0, \<lparr>page_text = ''foo'', page_images = [10, 20]\<rparr>, 20),
      (1, \<lparr>page_text = ''bar'', page_images = [30]\<rparr>, 30)]"
  by (simp add: all_images_def demo_doc_def)

lemma demo_decode:
  "decode_image demo_env doc 10 = Inr (\<lparr>bi_image = ''rgb'', bi_ext = ''png''\<rparr>, ''rgb'')"
  "decode_image demo_env doc 20 = Inl (Exception ''cannot identify image file'')"
  "decode_image demo_env doc 30 = Inr (\<lparr>bi_image = ''gray'', bi_ext = ''png''\<rparr>, ''gray'')"
  by (simp_all add: decode_image_def demo_env_def bind_err_def)

lemma demo_process:
  "process_image demo_env doc i pg 10 =
     Inr \<lparr>im_page = i + 1, im_position = \<lparr>pos_x = 0, pos_y = 0, pos_width = 2, pos_height = 2\<rparr>,
          im_base64 = ''rgb'', im_size = (2, 2), im_format = ''png'', im_ocr_text = [],
          is_chart = None, chart_type = None\<rparr>"
  "process_image demo_env doc i pg 30 =
     Inr \<lparr>im_page = i + 1, im_position = \<lparr>pos_x = 0, pos_y = 0, pos_width = 2, pos_height = 2\<rparr>,
          im_base64 = ''gray'', im_size = (2, 2), im_format = ''png'', im_ocr_text = [],
          is_chart = None, chart_type = None\<rparr>"
  unfolding process_image_def demo_decode
  by (simp_all add: demo_env_def bind_err_def)

lemma demo_fitz_open: "fitz_open demo_env data = Inr demo_doc"
  by (simp add: demo_env_def)

text \<open>
  The document of three images whose second image is corrupt: the records of the first
  and the third image are returned, in this order.
\<close>

theorem one_corrupt_image_is_skipped_witness:
  "length (all_images demo_doc) = 3 \<and>
   decode_image demo_env demo_doc 20 = Inl (Exception ''cannot identify image file'') \<and>
   (\<exists>rs. extract_images_from_pdf demo_env ''%PDF'' = Inr rs \<and> length rs = 2 \<and>
      map im_page rs = [1, 2] \<and> map im_base64 rs = [''rgb'', ''gray''])"
proof -
  have others: "\<forall>j < length (all_images demo_doc). j \<noteq> 1 \<longrightarrow>
      (\<exists>r. process_at demo_env demo_doc (all_images demo_doc ! j) = Inr r)"
  proof (intro allI impI)
    fix j assume "j < length (all_images demo_doc)" "j \<noteq> 1"
    then have "j = 0 \<or> j = 2" by (auto simp: demo_all_images)
    then show "\<exists>r. process_at demo_env demo_doc (all_images demo_doc ! j) = Inr r"
      by (auto simp: demo_all_images process_at_def demo_process)
  qed
  obtain rs where rs: "extract_images_from_pdf demo_env ''%PDF'' = Inr rs"
    "length rs = length (all_images demo_doc) - 1"
    "map Inr rs = map (process_at demo_env demo_doc)
       (take 1 (all_images demo_doc) @ drop (Suc 1) (all_images demo_doc))"
    using one_corrupt_image_is_skipped [of demo_env "''%PDF''" demo_doc 1 0
        "\<lparr>page_text = ''foo'', page_images = [10, 20]\<rparr>" 20
        "Exception ''cannot identify image file''"]
      demo_fitz_open demo_decode(2) others
    by (auto simp: demo_all_images)
  from rs(3) have "(map Inr rs :: (error + image_record) list) =
     [Inr \<lparr>im_page = 1, im_position = \<lparr>pos_x = 0, pos_y = 0, pos_width = 2, pos_height = 2\<rparr>,
          im_base64 = ''rgb'', im_size = (2, 2), im_format = ''png'', im_ocr_text = [],
          is_chart = None, chart_type = None\<rparr>,
      Inr \<lparr>im_page = 2, im_position = \<lparr>pos_x = 0, pos_y = 0, pos_width = 2, pos_height = 2\<rparr>,
          im_base64 = ''gray'', im_size = (2, 2), im_format = ''png'', im_ocr_text = [],
          is_chart = None, chart_type = None\<rparr>]"
    by (simp add: demo_all_images process_at_def demo_process)
  then have "map im_page rs = [1, 2] \<and> map im_base64 rs = [''rgb'', ''gray'']"
    by (auto simp: map_eq_Cons_conv)
  with rs(1,2) show ?thesis by (auto simp: demo_all_images demo_decode)
qed

lemma ocr_fail_parts:
  "decode_image ocr_fail_env doc xref = decode_image demo_env doc xref"
  "fitz_open ocr_fail_env = fitz_open demo_env"
  by (simp_all add: ocr_fail_env_def decode_image_def demo_env_def)

text \<open>
  Claim C2, as stated, fails: image 30 decodes and its recognition raises; extraction
  returns the record of image 10 only (image 20 is corrupt), and no record for image 30.
\<close>

theorem recognition_failure_drops_record:
  "decode_image ocr_fail_env demo_doc 30 = Inr (\<lparr>bi_image = ''gray'', bi_ext = ''png''\<rparr>, ''gray'') \<and>
   image_to_string ocr_fail_env ''gray'' = Inl (Exception ''TesseractError'') \<and>
   extract_images_from_pdf ocr_fail_env ''%PDF'' =
     Inr [\<lparr>im_page = 1, im_position = \<lparr>pos_x = 0, pos_y = 0, pos_width = 2, pos_height = 2\<rparr>,
           im_base64 = ''rgb'', im_size = (2, 2), im_format = ''png'', im_ocr_text = [],
           is_chart = None, chart_type = None\<rparr>]"
  by (simp add: extract_images_from_pdf_def bind_err_def ocr_fail_env_def demo_env_def
      demo_doc_def process_image_def decode_image_def)

lemma ocr_fail_process:
  "process_image ocr_fail_env doc i pg 10 =
     Inr \<lparr>im_page = i + 1, im_position = \<lparr>pos_x = 0, pos_y = 0, pos_width = 2, pos_height = 2\<rparr>,
          im_base64 = ''rgb'', im_size = (2, 2), im_format = ''png'', im_ocr_text = [],
          is_chart = None, chart_type = None\<rparr>"
  "process_image ocr_fail_env doc i pg 20 = Inl (Exception ''cannot identify image file'')"
  unfolding process_image_def ocr_fail_parts demo_decode
  by (simp_all add: ocr_fail_env_def demo_env_def bind_err_def)

text \<open>The same image, through the amended statement.\<close>

theorem recognition_failure_skips_image_witness:
  "decode_image ocr_fail_env demo_doc 30 = Inr (\<lparr>bi_image = ''gray'', bi_ext = ''png''\<rparr>, ''gray'') \<and>
   image_to_string ocr_fail_env ''gray'' = Inl (Exception ''TesseractError'') \<and>
   (\<exists>e'. process_image ocr_fail_env demo_doc 1 \<lparr>page_text = ''bar'', page_images = [30]\<rparr> 30 = Inl e') \<and>
   image_loop ocr_fail_env demo_doc 1 \<lparr>page_text = ''bar'', page_images = [30]\<rparr> [30] [] = [] \<and>
   (\<exists>rs. extract_images_from_pdf ocr_fail_env ''%PDF'' = Inr rs \<and> map im_base64 rs = [''rgb''])"
proof -
  let ?pg = "\<lparr>page_text = ''bar'', page_images = [30]\<rparr>"
  let ?pre = "[(0, \<lparr>page_text = ''foo'', page_images = [10, 20]\<rparr>, 10),
               (0, \<lparr>page_text = ''foo'', page_images = [10, 20]\<rparr>, 20)]"
  have d: "decode_image ocr_fail_env demo_doc 30 =
      Inr (\<lparr>bi_image = ''gray'', bi_ext = ''png''\<rparr>, ''gray'')"
    by (simp add: ocr_fail_parts demo_decode)
  have o: "image_to_string ocr_fail_env ''gray'' = Inl (Exception ''TesseractError'')"
    by (simp add: ocr_fail_env_def)
  have f: "fitz_open ocr_fail_env ''%PDF'' = Inr demo_doc"
    by (simp add: ocr_fail_parts demo_fitz_open)
  have a: "all_images demo_doc = ?pre @ (1, ?pg, 30) # []"
    by (simp add: demo_all_images)
  note t = recognition_failure_skips_image [OF d o, of 1 ?pg "[]" "[]" "''%PDF''" ?pre "[]"]
  from t have p: "\<exists>e'. process_image ocr_fail_env demo_doc 1 ?pg 30 = Inl e'" by blast
  from t have l: "image_loop ocr_fail_env demo_doc 1 ?pg [30] [] = []"
    by (simp del: image_loop.simps(2) add: image_loop.simps(1))
  from t f a have "extract_images_from_pdf ocr_fail_env ''%PDF'' =
      Inr (successes (map (process_at ocr_fail_env demo_doc) ?pre) @
           successes (map (process_at ocr_fail_env demo_doc) []))" by blast
  then have "\<exists>rs. extract_images_from_pdf ocr_fail_env ''%PDF'' = Inr rs \<and>
      map im_base64 rs = [''rgb'']"
    by (simp add: process_at_def ocr_fail_process)
  with d o p l show ?thesis by blast
qed

text \<open>
  Claim C7, as stated, fails when another image fails after decoding: of the three images,
  exactly one (image 20) fails to decode, image 30 decodes and its text recognition raises;
  extraction returns one record, not two.
\<close>

theorem later_failure_drops_another_record:
  "length (all_images demo_doc) = 3 \<and>
   decode_image ocr_fail_env demo_doc 10 = Inr (\<lparr>bi_image = ''rgb'', bi_ext = ''png''\<rparr>, ''rgb'') \<and>
   decode_image ocr_fail_env demo_doc 20 = Inl (Exception ''cannot identify image file'') \<and>
   decode_image ocr_fail_env demo_doc 30 = Inr (\<lparr>bi_image = ''gray'', bi_ext = ''png''\<rparr>, ''gray'') \<and>
   (\<exists>rs. extract_images_from_pdf ocr_fail_env ''%PDF'' = Inr rs \<and> length rs = 1)"
proof -
  have "extract_images_from_pdf ocr_fail_env ''%PDF'' =
      Inr (successes (map (process_at ocr_fail_env demo_doc) (all_images demo_doc)))"
    by (rule extract_images_successes) (simp add: ocr_fail_parts demo_fitz_open)
  moreover have "process_image ocr_fail_env demo_doc 1 \<lparr>page_text = ''bar'', page_images = [30]\<rparr> 30 =
      Inl (Exception ''TesseractError'')"
    unfolding process_image_def ocr_fail_parts demo_decode
    by (simp add: ocr_fail_env_def demo_env_def bind_err_def)
  ultimately have "\<exists>rs. extract_images_from_pdf ocr_fail_env ''%PDF'' = Inr rs \<and> length rs = 1"
    by (simp add: demo_all_images process_at_def ocr_fail_process)
  then show ?thesis by (simp add: demo_all_images ocr_fail_parts demo_decode)
qed

subsection \<open>The chart classifier\<close>

lemma detect_charts_multi:
  "channels \<noteq> 1 \<Longrightarrow>
   detect_charts env (Inr (Arr3 channels rows)) =
     (let px = (if channels = 4 then map (map (take 3)) rows else rows);
          r = np_divide env (edges_h px) (edges_v px);
          chart = (unique_colors px < 50 \<and> 0.5 < r \<and> r < 2)
      in (chart,
          if chart then Some (if 1.2 < r then ''bar_chart''
                              else if r < 0.8 then ''line_chart'' else ''other_chart'')
          else None))"
  by (simp add: detect_charts_def Let_def)

lemma wrapped_stats:
  "unique_colors [[[5, 0, 0], [6, 0, 0]], [[4, 0, 0], [5, 0, 0::8 word]]] = 3"
  "edges_h [[[5, 0, 0], [6, 0, 0]], [[4, 0, 0], [5, 0, 0::8 word]]] = 510"
  "edges_v [[[5, 0, 0], [6, 0, 0]], [[4, 0, 0], [5, 0, 0::8 word]]] = 2"
  "abs_edges_h [[[5, 0, 0], [6, 0, 0]], [[4, 0, 0], [5, 0, 0::8 word]]] = 2"
  "abs_edges_v [[[5, 0, 0], [6, 0, 0]], [[4, 0, 0], [5, 0, 0::8 word]]] = 2"
  by (simp_all add: unique_colors_def edges_h_def edges_v_def abs_edges_h_def abs_edges_v_def
      adjacent_def pixel_diff_def abs_pixel_diff_def unsigned_minus_1_eq_mask mask_eq_exp_minus_1)

lemma edge_ratio_510_2: "2 \<le> edge_ratio 510 2"
  by (simp add: edge_ratio_def)

lemma edge_ratio_2_2_bounds:
  "0.5 < edge_ratio 2 2" "edge_ratio 2 2 < 2" "\<not> 1.2 < edge_ratio 2 2" "\<not> edge_ratio 2 2 < 0.8"
  by (simp_all add: edge_ratio_def)

text \<open>
  Claim C5. The claim takes the edge ratio from the sums of the absolute differences between
  adjacent pixel values. In the source the differences are taken on unsigned bytes, where
  \<^verbatim>\<open>np.diff\<close> wraps modulo 256 and \<^verbatim>\<open>np.abs\<close> changes nothing. On the 2 by 2 RGB bitmap
  below, with three colours, the absolute differences sum to 2 vertically and 2 horizontally,
  an edge ratio strictly between 0.5 and 2 for which the rule of the claim gives a chart; the
  source computes 510 and 2 and classifies the bitmap as not a chart.
\<close>

theorem wrapped_differences_reject_chart:
  "unique_colors [[[5, 0, 0], [6, 0, 0]], [[4, 0, 0], [5, 0, 0]]] = 3 \<and>
   abs_edges_h [[[5, 0, 0], [6, 0, 0]], [[4, 0, 0], [5, 0, 0]]] = 2 \<and>
   abs_edges_v [[[5, 0, 0], [6, 0, 0]], [[4, 0, 0], [5, 0, 0]]] = 2 \<and>
   0.5 < edge_ratio 2 2 \<and> edge_ratio 2 2 < 2 \<and>
   edges_h [[[5, 0, 0], [6, 0, 0]], [[4, 0, 0], [5, 0, 0]]] = 510 \<and>
   edges_v [[[5, 0, 0], [6, 0, 0]], [[4, 0, 0], [5, 0, 0]]] = 2 \<and>
   detect_charts demo_env (Inr (Arr3 3 [[[5, 0, 0], [6, 0, 0]], [[4, 0, 0], [5, 0, 0]]])) =
     (False, None)"
proof -
  have d: "np_divide demo_env = edge_ratio" by (simp add: demo_env_def)
  have "detect_charts demo_env (Inr (Arr3 3 [[[5, 0, 0], [6, 0, 0]], [[4, 0, 0], [5, 0, 0]]])) =
     (False, None)"
    using edge_ratio_510_2 by (simp add: detect_charts_multi Let_def wrapped_stats d)
  then show ?thesis using wrapped_stats edge_ratio_2_2_bounds by simp
qed

text \<open>
  Claim C4. A grayscale image, with or without an alpha channel, is to be classified as not
  a chart. The source rejects a two-dimensional array and an array with one channel, and
  drops the alpha channel of a four-channel array, but has no case for two channels: a 2 by 2
  bitmap of a gray and an alpha channel passes both tests on the shape and is classified as
  a chart.
\<close>

theorem two_channel_image_classified_as_chart:
  "detect_charts demo_env (Inr (Arr3 2 [[[0, 255], [1, 255]], [[1, 255], [2, 255]]])) =
     (True, Some ''other_chart'')"
  by (simp add: detect_charts_def Let_def demo_env_def unique_colors_def edges_h_def edges_v_def
      adjacent_def pixel_diff_def edge_ratio_def)

text \<open>
  A two-dimensional array (one value per pixel) and an array whose channel axis has length
  one are never charts, and carry no chart type.
\<close>

lemma single_channel_is_not_chart:
  "detect_charts env (Inr (Arr2 px)) = (False, None) \<and>
   detect_charts env (Inr (Arr3 1 rows)) = (False, None)"
  by (simp add: detect_charts_def)

lemma detect_charts_non_chart:
  "\<not> fst (detect_charts env a) \<Longrightarrow> snd (detect_charts env a) = None"
  by (auto simp: detect_charts_def Let_def split: sum.splits ndarray.splits if_splits)

lemma classify_image_invariant:
  assumes "chart_type d = None" and "is_chart (classify_image env d) \<noteq> Some True"
  shows "chart_type (classify_image env d) = None"
proof (cases "bind_err (b64decode env (im_base64 d)) (Image_open env)")
  case (Inl e)
  then show ?thesis using assms(1) by (simp add: classify_image_def)
next
  case (Inr img)
  obtain c t where ct: "detect_charts env (np_array env img) = (c, t)" by force
  show ?thesis
  proof (cases c)
    case True
    then have "is_chart (classify_image env d) = Some True"
      using Inr ct by (simp add: classify_image_def split: option.splits)
    with assms(2) show ?thesis by simp
  next
    case False
    then have "t = None" using detect_charts_non_chart [of env "np_array env img"] ct by simp
    then show ?thesis using Inr ct assms(1) by (simp add: classify_image_def)
  qed
qed

lemma process_image_no_chart_type:
  "process_image env doc i pg xref = Inr r \<Longrightarrow> chart_type r = None"
  by (auto simp: process_image_def bind_err_def split: sum.splits prod.splits)

lemma successes_set: "r \<in> set (successes xs) \<Longrightarrow> Inr r \<in> set xs"
  by (induction xs rule: successes.induct) auto

lemma extracted_no_chart_type:
  assumes "extract_images_from_pdf env data = Inr imgs" and "r \<in> set imgs"
  shows "chart_type r = None"
proof -
  obtain doc where d: "fitz_open env data = Inr doc"
    using assms(1) by (auto simp: extract_images_from_pdf_def bind_err_def split: sum.splits)
  then have "imgs = successes (map (process_at env doc) (all_images doc))"
    using assms(1) extract_images_successes [OF d] by simp
  with assms(2) have "Inr r \<in> set (map (process_at env doc) (all_images doc))"
    by (auto dest: successes_set)
  then obtain i pg xref where "process_image env doc i pg xref = Inr r"
    by (auto simp: process_at_def split: prod.splits)
  then show ?thesis by (rule process_image_no_chart_type)
qed

lemma analyze_pdf_images:
  assumes "analyze_pdf env files = Inr (Analysis res)"
  shows "\<exists>data imgs. extract_images_from_pdf env data = Inr imgs \<and>
           res_images res = map (classify_image env) imgs"
  using assms
proof (rule analyze_pdf_Analysis)
  fix upl tbp imgs
  assume "extract_images_from_pdf env (up_content upl) = Inr imgs"
    and "res = \<lparr>res_filename = secure_filename env (up_filename upl),
            res_summary = summarize_text env (snd (analyze_document_structure tbp)),
            res_structure = fst (analyze_document_structure tbp),
            res_entities = extract_entities env (snd (analyze_document_structure tbp)),
            res_images = map (classify_image env) imgs,
            res_page_count = length tbp,
            res_text_by_page = tbp\<rparr>"
  then have "extract_images_from_pdf env (up_content upl) = Inr imgs \<and>
      res_images res = map (classify_image env) imgs" by simp
  then show ?thesis by (intro exI)
qed

text \<open>
  Claim C8. A classification that is not a chart carries no chart type; the enrichment step
  leaves a record that had no chart type without one unless it marks it as a chart, also
  when decoding the image for classification raises; and in every analysis result, each
  image record that is not marked as a chart has no chart type.
\<close>

theorem non_chart_has_no_chart_type:
  "(\<not> fst (detect_charts env a) \<longrightarrow> snd (detect_charts env a) = None) \<and>
   (chart_type d = None \<and> is_chart (classify_image env d) \<noteq> Some True \<longrightarrow>
      chart_type (classify_image env d) = None) \<and>
   (analyze_pdf env files = Inr (Analysis res) \<longrightarrow>
      (\<forall>r \<in> set (res_images res). is_chart r \<noteq> Some True \<longrightarrow> chart_type r = None))"
proof (intro conjI impI ballI)
  show "\<not> fst (detect_charts env a) \<Longrightarrow> snd (detect_charts env a) = None"
    by (rule detect_charts_non_chart)
next
  assume "chart_type d = None \<and> is_chart (classify_image env d) \<noteq> Some True"
  then have "chart_type d = None" "is_chart (classify_image env d) \<noteq> Some True" by simp_all
  then show "chart_type (classify_image env d) = None"
    by (rule classify_image_invariant)
next
  fix r
  assume a: "analyze_pdf env files = Inr (Analysis res)"
    and r: "r \<in> set (res_images res)" and n: "is_chart r \<noteq> Some True"
  from a obtain data imgs where
    i: "extract_images_from_pdf env data = Inr imgs"
    and "res_images res = map (classify_image env) imgs"
    using analyze_pdf_images by blast
  with r obtain d where d: "d \<in> set imgs" "r = classify_image env d" by auto
  have "chart_type d = None" using i d(1) by (rule extracted_no_chart_type)
  moreover have "is_chart (classify_image env d) \<noteq> Some True" using n d(2) by simp
  ultimately show "chart_type r = None" unfolding d(2) by (rule classify_image_invariant)
qed

lemma demo_page_loop:
  "page_loop demo_env demo_doc 0 demo_doc [] =
     [\<lparr>im_page = 1, im_position = \<lparr>pos_x = 0, pos_y = 0, pos_width = 2, pos_height = 2\<rparr>,
       im_base64 = ''rgb'', im_size = (2, 2), im_format = ''png'', im_ocr_text = [],
       is_chart = None, chart_type = None\<rparr>,
      \<lparr>im_page = 2, im_position = \<lparr>pos_x = 0, pos_y = 0, pos_width = 2, pos_height = 2\<rparr>,
       im_base64 = ''gray'', im_size = (2, 2), im_format = ''png'', im_ocr_text = [],
       is_chart = None, chart_type = None\<rparr>]"
  by (simp add: page_loop_successes demo_all_images [unfolded all_images_def] process_at_def
      demo_process demo_decode decode_failure_process_image)

lemma demo_detect:
  "detect_charts demo_env (Inr demo_rgb) = (True, Some ''other_chart'')"
  "detect_charts demo_env (Inr (Arr2 px)) = (False, None)"
  by (simp_all add: detect_charts_def Let_def demo_env_def demo_rgb_def unique_colors_def
      edges_h_def edges_v_def adjacent_def pixel_diff_def edge_ratio_def)

lemma demo_classified:
  "map (\<lambda>r. (im_page r, is_chart r, chart_type r))
     (map (classify_image demo_env) (page_loop demo_env demo_doc 0 demo_doc [])) =
   [(1, Some True, Some ''other_chart''), (2, Some False, None)]"
proof -
  have np: "np_array demo_env ''rgb'' = Inr demo_rgb"
    "np_array demo_env ''gray'' = Inr (Arr2 [[0, 1], [1, 2]])"
    "b64decode demo_env = Inr" "Image_open demo_env ''rgb'' = Inr ''rgb''"
    "Image_open demo_env ''gray'' = Inr ''gray''"
    by (simp_all add: demo_env_def)
  show ?thesis
    by (simp add: demo_page_loop classify_image_def bind_err_def np demo_detect)
qed

text \<open>
  The analysis of the small document: the RGB image is a chart with a type, the grayscale
  image is not a chart and has no type.
\<close>

theorem non_chart_has_no_chart_type_witness:
  "detect_charts demo_env (Inr (Arr2 [[0, 1], [1, 2]])) = (False, None) \<and>
   (\<exists>res. analyze_pdf demo_env (Some demo_upload) = Inr (Analysis res) \<and>
     map (\<lambda>r. (im_page r, is_chart r, chart_type r)) (res_images res) =
       [(1, Some True, Some ''other_chart''), (2, Some False, None)] \<and>
     list_all (\<lambda>r. is_chart r = Some True \<or> chart_type r = None) (res_images res))"
proof -
  let ?gray = "Inr (Arr2 [[0, 1], [1, 2]]) :: error + ndarray"
  let ?d = "\<lparr>im_page = 2, im_position = \<lparr>pos_x = 0, pos_y = 0, pos_width = 2, pos_height = 2\<rparr>,
       im_base64 = ''gray'', im_size = (2, 2), im_format = ''png'', im_ocr_text = [],
       is_chart = None, chart_type = None\<rparr>"
  obtain res where r: "analyze_pdf demo_env (Some demo_upload) = Inr (Analysis res)"
    "res_images res = map (classify_image demo_env) (page_loop demo_env demo_doc 0 demo_doc [])"
    using demo_analysis by blast
  note t = non_chart_has_no_chart_type [of demo_env ?gray ?d "Some demo_upload" res]
  have "\<not> fst (detect_charts demo_env ?gray)" by (simp add: demo_detect)
  with t have "snd (detect_charts demo_env ?gray) = None" by blast
  then have g: "detect_charts demo_env ?gray = (False, None)"
    using \<open>\<not> fst (detect_charts demo_env ?gray)\<close> by (simp add: prod_eq_iff)
  from t r(1) have "\<forall>r \<in> set (res_images res). is_chart r \<noteq> Some True \<longrightarrow> chart_type r = None"
    by blast
  then have "list_all (\<lambda>r. is_chart r = Some True \<or> chart_type r = None) (res_images res)"
    by (auto simp: list_all_iff)
  with r demo_classified g show ?thesis by auto
qed

subsection \<open>Cleaning, entity input and the summarizer\<close>

lemma length_collapse_ws_le: "length (collapse_ws s) \<le> length s"
proof (induction s rule: collapse_ws.induct)
  case 1
  then show ?case by simp
next
  case (2 c cs)
  have "length (dropWhile is_space cs) \<le> length cs" by (rule length_dropWhile_le)
  with 2 show ?case by (cases "is_space c") auto
qed

lemma length_strip_le: "length (strip s) \<le> length s"
proof -
  have "length (strip s) \<le> length (dropWhile is_space s)"
    using length_dropWhile_le [of is_space "rev (dropWhile is_space s)"] by (simp add: strip_def)
  also have "\<dots> \<le> length s" by (rule length_dropWhile_le)
  finally show ?thesis .
qed

lemma length_clean_text_le: "length (clean_text s) \<le> length s"
proof -
  have "length (clean_text s) \<le> length (filter allowed_char (collapse_ws s))"
    unfolding clean_text_def by (rule length_strip_le)
  also have "\<dots> \<le> length (collapse_ws s)" by simp
  also have "\<dots> \<le> length s" by (rule length_collapse_ws_le)
  finally show ?thesis .
qed

lemma collapse_ws_no_space: "\<forall>c \<in> set s. \<not> is_space c \<Longrightarrow> collapse_ws s = s"
  by (induction s) simp_all

lemma strip_no_space: "\<forall>c \<in> set s. \<not> is_space c \<Longrightarrow> strip s = s"
proof (cases s)
  case Nil
  then show ?thesis by (simp add: strip_def)
next
  case (Cons a as)
  assume "\<forall>c \<in> set s. \<not> is_space c"
  then have "\<not> is_space (hd s)" "\<not> is_space (last s)" using Cons by auto
  with Cons show ?thesis by (intro strip_id) simp_all
qed

lemma clean_text_words: "\<forall>c \<in> set s. is_word c \<and> \<not> is_space c \<Longrightarrow> clean_text s = s"
proof -
  assume a: "\<forall>c \<in> set s. is_word c \<and> \<not> is_space c"
  then have "filter allowed_char s = s" by (auto simp: allowed_char_def filter_id_conv)
  with a show ?thesis by (simp add: clean_text_def collapse_ws_no_space strip_no_space)
qed

lemma space_is_space: "is_space (CHR '' '')" by (simp add: is_space_def)

lemma dropWhile_spaces: "dropWhile is_space (replicate n (CHR '' '') @ s) = dropWhile is_space s"
  by (induction n) (simp_all add: space_is_space)

lemma collapse_ws_spaces:
  "0 < n \<Longrightarrow> collapse_ws (replicate n (CHR '' '') @ s) = CHR '' '' # collapse_ws (dropWhile is_space s)"
  by (cases n) (simp_all add: space_is_space dropWhile_spaces)

lemma clean_text_spaces: "0 < n \<Longrightarrow> clean_text (replicate n (CHR '' '')) = []"
  using collapse_ws_spaces [of n "[]"]
  by (simp add: clean_text_def allowed_char_def strip_def space_is_space)

lemma clean_text_spaces_a: "0 < n \<Longrightarrow> clean_text (replicate n (CHR '' '') @ ''a'') = ''a''"
  using collapse_ws_spaces [of n "''a''"]
  by (simp add: clean_text_def allowed_char_def strip_def is_space_def is_word_def is_az_def)

text \<open>
  Claim C3, as amended. The string handed to named-entity recognition is obtained by first
  truncating the raw text to its first 100,000 characters and then cleaning that prefix
  (whitespace runs collapsed to one space, characters outside the allowed set removed, the
  ends trimmed); it is at most 100,000 characters long, and it equals the truncation of the
  cleaned full text whenever the raw text has at most 100,000 characters.
\<close>

theorem ner_input_truncates_before_cleaning:
  "extract_entities env text = entity_loop (nlp_ents env (ner_input text)) [] {} \<and>
   ner_input text = strip (filter allowed_char (collapse_ws (take 100000 text))) \<and>
   length (ner_input text) \<le> 100000 \<and>
   (length text \<le> 100000 \<longrightarrow> ner_input text = take 100000 (clean_text text))"
proof (intro conjI impI)
  show "extract_entities env text = entity_loop (nlp_ents env (ner_input text)) [] {}"
    by (simp add: extract_entities_def)
  show "ner_input text = strip (filter allowed_char (collapse_ws (take 100000 text)))"
    by (simp add: ner_input_def clean_text_def)
  have "length (ner_input text) \<le> length (take 100000 text)"
    unfolding ner_input_def by (rule length_clean_text_le)
  then show "length (ner_input text) \<le> 100000" by simp
next
  assume a: "length text \<le> 100000"
  then have "length (clean_text text) \<le> 100000"
    using length_clean_text_le [of "text"] by linarith
  with a show "ner_input text = take 100000 (clean_text text)"
    by (simp add: ner_input_def)
qed

text \<open>A short text: both orders give the same string.\<close>

theorem ner_input_truncates_before_cleaning_witness:
  "length ''a  #b'' \<le> 100000 \<and> ner_input ''a  #b'' = take 100000 (clean_text ''a  #b'') \<and>
   ner_input ''a  #b'' = ''a b''"
proof -
  have n: "ner_input ''a  #b'' = ''a b''"
    by (simp add: ner_input_def clean_text_def strip_def allowed_char_def is_space_def
        is_word_def is_az_def is_AZ_def is_digit_def)
  have l: "length ''a  #b'' \<le> 100000" by simp
  have "ner_input ''a  #b'' = take 100000 (clean_text ''a  #b'')"
    using ner_input_truncates_before_cleaning [of demo_env "''a  #b''"] l by blast
  with n l show ?thesis by blast
qed

text \<open>
  Claim C3, as stated, fails: for 100,000 spaces followed by the letter \<open>a\<close>, the source
  cleans the 100,000 spaces and recognizes entities in the empty string, whereas cleaning
  first and truncating afterwards gives the string \<open>a\<close>.
\<close>

theorem ner_input_differs_from_clean_then_truncate:
  "ner_input (replicate 100000 (CHR '' '') @ ''a'') = [] \<and>
   take 100000 (clean_text (replicate 100000 (CHR '' '') @ ''a'')) = ''a''"
proof -
  have "take 100000 (replicate 100000 (CHR '' '') @ ''a'') = replicate 100000 (CHR '' '')"
    by simp
  then have "ner_input (replicate 100000 (CHR '' '') @ ''a'') = []"
    by (simp only: ner_input_def) (simp add: clean_text_spaces)
  moreover have "take 100000 (clean_text (replicate 100000 (CHR '' '') @ ''a'')) = ''a''"
    by (simp add: clean_text_spaces_a)
  ultimately show ?thesis by simp
qed

lemma clean_text_as: "clean_text (replicate n (CHR ''a'')) = replicate n (CHR ''a'')"
  by (rule clean_text_words) (simp add: is_word_def is_az_def is_space_def)

lemma join_space_concat:
  "join_space ss = (case ss of [] \<Rightarrow> [] | s # rest \<Rightarrow> s @ concat (map (\<lambda>t. '' '' @ t) rest))"
  by (induction ss rule: join_space.induct) simp_all

text \<open>
  Claim C6. With \<open>clean\<close> the cleaned text (whitespace runs collapsed, disallowed characters
  removed, ends trimmed), \<open>sentences\<close> the first five sentences of the first 10,000 characters
  of \<open>clean\<close>, and \<open>summary\<close> these sentences joined by single spaces: when the summary is
  shorter than 100 characters and the cleaned text longer than 100, the summarizer returns
  the first 300 characters of the cleaned text followed by three dots; otherwise it returns
  the summary unchanged.
\<close>

theorem summarizer_fallback:
  assumes "clean = strip (filter allowed_char (collapse_ws text))"
    and "sentences = take 5 (nlp_sents env (take 10000 clean))"
    and "summary = (case sentences of [] \<Rightarrow> [] | s # rest \<Rightarrow> s @ concat (map (\<lambda>t. '' '' @ t) rest))"
  shows "(length summary < 100 \<and> 100 < length clean \<longrightarrow>
            summarize_text env text = take 300 clean @ ''...'') \<and>
         (\<not> (length summary < 100 \<and> 100 < length clean) \<longrightarrow>
            summarize_text env text = summary)"
proof -
  have "summarize_text env text =
      (if length summary < 100 \<and> 100 < length clean then take 300 clean @ ''...'' else summary)"
    unfolding assms summarize_text_def clean_text_def Let_def
    by (simp only: join_space_concat)
  then show ?thesis by simp
qed

lemma chunks_replicate:
  assumes "0 < n" "n \<le> m"
  shows "chunks n (replicate m x) = replicate n x # chunks n (replicate (m - n) x)"
proof -
  obtain k where k: "m = Suc k" using assms by (cases m) auto
  have e: "x # replicate k x = replicate m x" using k by simp
  have "chunks n (x # replicate k x) =
      take n (x # replicate k x) # chunks n (drop n (x # replicate k x))"
    using assms(1) by (subst chunks.simps) simp
  then have "chunks n (replicate m x) =
      take n (replicate m x) # chunks n (drop n (replicate m x))"
    unfolding e .
  then show ?thesis using assms(2) by (simp add: min_def)
qed

lemma demo_short_clean:
  "strip (filter allowed_char (collapse_ws ''ab  #cd! ef gh'')) = ''ab cd! ef gh''"
  by (simp add: strip_def allowed_char_def is_space_def is_word_def is_az_def is_AZ_def
      is_digit_def)

lemma demo_short_sentences:
  "take 5 (chunks 2 (take 10000 ''ab cd! ef gh'')) = [''ab'', '' c'', ''d!'', '' e'', ''f '']"
  by simp

lemma demo_long_sentences:
  "take 5 (chunks 30 (take 10000 (replicate 400 (CHR ''a'')))) =
     replicate 5 (replicate 30 (CHR ''a''))"
  by (simp add: chunks_replicate numeral_eq_Suc)

lemma demo_fallback_sentences:
  "take 5 [take 10 (take 10000 (replicate 400 (CHR ''a'')))] = [replicate 10 (CHR ''a'')]"
  by simp

lemma demo_joins:
  "(case [''ab'', '' c'', ''d!'', '' e'', ''f ''] of
      [] \<Rightarrow> [] | s # rest \<Rightarrow> s @ concat (map (\<lambda>t. '' '' @ t) rest)) = ''ab  c d!  e f ''"
  "(case [replicate 10 (CHR ''a'')] of
      [] \<Rightarrow> [] | s # rest \<Rightarrow> s @ concat (map (\<lambda>t. '' '' @ t) rest)) = replicate 10 (CHR ''a'')"
  "(case replicate 5 (replicate 30 (CHR ''a'')) of
      [] \<Rightarrow> [] | s # rest \<Rightarrow> s @ concat (map (\<lambda>t. '' '' @ t) rest)) =
     replicate 30 (CHR ''a'') @ concat (replicate 4 ('' '' @ replicate 30 (CHR ''a'')))"
  by (simp_all add: numeral_eq_Suc)

lemma demo_lengths:
  "length ''ab  c d!  e f '' = 14" "length ''ab cd! ef gh'' = 12"
  "length (replicate 10 (CHR ''a'')) = 10" "length (replicate 400 (CHR ''a'')) = 400"
  "length (replicate 30 (CHR ''a'') @ concat (replicate 4 ('' '' @ replicate 30 (CHR ''a'')))) = 154"
  by (simp_all add: length_concat sum_list_replicate)

text \<open>
  Three runs. A short text that is cleaned, cut into six sentences of which five are joined,
  and returned as it is short; a text of 400 letters with one sentence of 10, which takes
  the fallback and is cut to 300; and the same text with sentences of 30 characters, whose
  five joined sentences have 154 characters and are returned.
\<close>

theorem summarizer_fallback_witness:
  "summarize_text short_sentence_env ''ab  #cd! ef gh'' = ''ab  c d!  e f '' \<and>
   summarize_text demo_env (replicate 400 (CHR ''a'')) = replicate 300 (CHR ''a'') @ ''...'' \<and>
   summarize_text long_sentence_env (replicate 400 (CHR ''a'')) =
     replicate 30 (CHR ''a'') @ concat (replicate 4 ('' '' @ replicate 30 (CHR ''a'')))"
proof -
  have s: "nlp_sents short_sentence_env = chunks 2" "nlp_sents long_sentence_env = chunks 30"
    "nlp_sents demo_env = (\<lambda>t. [take 10 t])"
    by (simp_all add: short_sentence_env_def long_sentence_env_def demo_env_def)
  note c = clean_text_as [of 400, unfolded clean_text_def]
  note short = summarizer_fallback [OF refl refl refl, of short_sentence_env "''ab  #cd! ef gh''",
      unfolded s demo_short_clean demo_short_sentences demo_joins demo_lengths]
  note fallback = summarizer_fallback [OF refl refl refl, of demo_env "replicate 400 (CHR ''a'')",
      unfolded s c demo_fallback_sentences demo_joins demo_lengths]
  note long = summarizer_fallback [OF refl refl refl, of long_sentence_env "replicate 400 (CHR ''a'')",
      unfolded s c demo_long_sentences demo_joins demo_lengths]
  have a: "\<not> ((14::nat) < 100 \<and> (100::nat) < 12)" "(10::nat) < 100 \<and> (100::nat) < 400"
    "\<not> ((154::nat) < 100 \<and> (100::nat) < 400)" by simp_all
  have t: "take 300 (replicate 400 (CHR ''a'')) = replicate 300 (CHR ''a'')" by simp
  from short a(1) have 1: "summarize_text short_sentence_env ''ab  #cd! ef gh'' = ''ab  c d!  e f ''"
    by blast
  from fallback a(2) have 2: "summarize_text demo_env (replicate 400 (CHR ''a'')) =
      replicate 300 (CHR ''a'') @ ''...''" unfolding t by blast
  from long a(3) have 3: "summarize_text long_sentence_env (replicate 400 (CHR ''a'')) =
     replicate 30 (CHR ''a'') @ concat (replicate 4 ('' '' @ replicate 30 (CHR ''a'')))"
    by blast
  from 1 2 3 show ?thesis by blast
qed

subsection \<open>Entity filtering and deduplication\<close>

lemma strip_last_not_space:
  assumes "strip s \<noteq> []"
  shows "\<not> is_space (last (strip s))"
proof -
  let ?r = "dropWhile is_space (rev (dropWhile is_space s))"
  have r: "?r \<noteq> []" using assms by (simp add: strip_def)
  then have "\<not> is_space (hd ?r)" by (rule hd_dropWhile)
  moreover have "last (strip s) = hd ?r" using r by (simp add: strip_def last_rev)
  ultimately show ?thesis by simp
qed

lemma match_digits_strip: "match_digits (strip s) \<longleftrightarrow> purely_numeric (strip s)"
proof
  assume m: "match_digits (strip s)"
  let ?t = "strip s"
  from m have ne: "dropWhile is_digit ?t \<noteq> ?t" and d: "at_dollar (dropWhile is_digit ?t)"
    unfolding match_digits_def by blast+
  from ne have t: "?t \<noteq> []" by auto
  have "dropWhile is_digit ?t = []"
  proof (rule ccontr)
    assume "dropWhile is_digit ?t \<noteq> []"
    with d have e: "dropWhile is_digit ?t = [CHR 0x0A]" unfolding at_dollar_def by blast
    have "?t = takeWhile is_digit ?t @ dropWhile is_digit ?t" by simp
    with e have "?t = takeWhile is_digit ?t @ [CHR 0x0A]" by simp
    then have "last ?t = CHR 0x0A" by (metis last_snoc)
    moreover have "is_space (CHR 0x0A)" by (simp add: is_space_def)
    ultimately show False using strip_last_not_space [OF t] by simp
  qed
  then have "\<forall>c \<in> set ?t. is_digit c" by (simp add: dropWhile_eq_Nil_conv)
  then have "filter is_digit ?t = ?t" by (simp add: filter_id_conv)
  with t show "purely_numeric ?t" by (simp add: purely_numeric_def)
next
  assume "purely_numeric (strip s)"
  then have t: "strip s \<noteq> []" and "filter is_digit (strip s) = strip s"
    by (simp_all add: purely_numeric_def)
  then have "\<forall>c \<in> set (strip s). is_digit c" by (simp add: filter_id_conv)
  then have d: "dropWhile is_digit (strip s) = []" by (simp add: dropWhile_eq_Nil_conv)
  then have "dropWhile is_digit (strip s) \<noteq> strip s" using t by metis
  with d show "match_digits (strip s)" unfolding match_digits_def at_dollar_def by blast
qed

lemma entity_eta: "\<lparr>ent_text = ent_text e, ent_label = ent_label e\<rparr> = e"
  by (cases e) simp

lemma entity_loop_step:
  "entity_loop (e # ents) acc seen =
     (if survives e \<and> entity_key e \<notin> seen
      then entity_loop ents (acc @ [e]) (insert (entity_key e) seen)
      else entity_loop ents acc seen)"
  by (auto simp: survives_def match_digits_strip entity_eta)

declare entity_loop.simps(2) [simp del]

lemma entity_loop_keep_acc:
  "survives e \<Longrightarrow> entity_key e \<notin> seen \<Longrightarrow>
   entity_loop (e # ents) acc seen = entity_loop ents (acc @ [e]) (insert (entity_key e) seen)"
  by (simp add: entity_loop_step)

lemma entity_loop_skip_acc:
  "\<not> (survives e \<and> entity_key e \<notin> seen) \<Longrightarrow>
   entity_loop (e # ents) acc seen = entity_loop ents acc seen"
  by (auto simp: entity_loop_step)

lemma entity_loop_acc: "entity_loop ents acc seen = acc @ entity_loop ents [] seen"
proof (induction ents arbitrary: acc seen)
  case Nil
  then show ?case by simp
next
  case (Cons e ents)
  show ?case
  proof (cases "survives e \<and> entity_key e \<notin> seen")
    case True
    then have "entity_loop (e # ents) acc seen =
        entity_loop ents (acc @ [e]) (insert (entity_key e) seen)"
      by (simp add: entity_loop_keep_acc)
    also have "\<dots> = (acc @ [e]) @ entity_loop ents [] (insert (entity_key e) seen)"
      by (rule Cons.IH)
    also have "\<dots> = acc @ entity_loop ents ([] @ [e]) (insert (entity_key e) seen)"
      using Cons.IH [of "[] @ [e]" "insert (entity_key e) seen"] by simp
    also have "\<dots> = acc @ entity_loop (e # ents) [] seen"
      using True by (simp add: entity_loop_keep_acc)
    finally show ?thesis .
  next
    case False
    then have "entity_loop (e # ents) acc seen = entity_loop ents acc seen"
      "entity_loop (e # ents) [] seen = entity_loop ents [] seen"
      by (rule entity_loop_skip_acc)+
    then show ?thesis using Cons.IH [of acc seen] by simp
  qed
qed

lemma entity_loop_keep:
  "survives e \<and> entity_key e \<notin> seen \<Longrightarrow>
   entity_loop (e # ents) [] seen = e # entity_loop ents [] (insert (entity_key e) seen)"
  using entity_loop_acc [of ents "[e]" "insert (entity_key e) seen"]
  by (simp add: entity_loop_keep_acc)

lemma entity_loop_skip:
  "\<not> (survives e \<and> entity_key e \<notin> seen) \<Longrightarrow>
   entity_loop (e # ents) [] seen = entity_loop ents [] seen"
  by (rule entity_loop_skip_acc)

lemma entity_loop_subseq: "subseq (entity_loop ents [] seen) ents"
proof (induction ents arbitrary: seen)
  case Nil
  then show ?case by simp
next
  case (Cons a ents)
  show ?case
  proof (cases "survives a \<and> entity_key a \<notin> seen")
    case True
    show ?thesis unfolding entity_loop_keep [OF True] using Cons.IH by simp
  next
    case False
    show ?thesis unfolding entity_loop_skip [OF False] by (rule list_emb_Cons) (rule Cons.IH)
  qed
qed

lemma entity_loop_members:
  "e \<in> set (entity_loop ents [] seen) \<Longrightarrow> survives e \<and> entity_key e \<notin> seen \<and> e \<in> set ents"
proof (induction ents arbitrary: seen)
  case Nil
  then show ?case by simp
next
  case (Cons a ents)
  show ?case
  proof (cases "survives a \<and> entity_key a \<notin> seen")
    case True
    from Cons.prems have "e = a \<or> e \<in> set (entity_loop ents [] (insert (entity_key a) seen))"
      unfolding entity_loop_keep [OF True] by simp
    then show ?thesis using True Cons.IH [of "insert (entity_key a) seen"] by auto
  next
    case False
    from Cons.prems have "e \<in> set (entity_loop ents [] seen)"
      unfolding entity_loop_skip [OF False] .
    then show ?thesis using Cons.IH [of seen] by auto
  qed
qed

lemma entity_loop_distinct: "distinct (map entity_key (entity_loop ents [] seen))"
proof (induction ents arbitrary: seen)
  case Nil
  then show ?case by simp
next
  case (Cons a ents)
  show ?case
  proof (cases "survives a \<and> entity_key a \<notin> seen")
    case True
    have "entity_key a \<notin> entity_key ` set (entity_loop ents [] (insert (entity_key a) seen))"
      using entity_loop_members by fastforce
    then show ?thesis unfolding entity_loop_keep [OF True] using Cons.IH by simp
  next
    case False
    show ?thesis unfolding entity_loop_skip [OF False] by (rule Cons.IH)
  qed
qed

lemma entity_loop_covers:
  "e \<in> set ents \<Longrightarrow> survives e \<Longrightarrow> entity_key e \<notin> seen \<Longrightarrow>
   entity_key e \<in> entity_key ` set (entity_loop ents [] seen)"
proof (induction ents arbitrary: seen)
  case Nil
  then show ?case by simp
next
  case (Cons a ents)
  show ?case
  proof (cases "survives a \<and> entity_key a \<notin> seen")
    case True
    show ?thesis
    proof (cases "entity_key e = entity_key a")
      case True
      then show ?thesis unfolding entity_loop_keep [OF \<open>survives a \<and> entity_key a \<notin> seen\<close>]
        by simp
    next
      case False
      with Cons.prems have "e \<in> set ents" by auto
      with False Cons.prems have
        "entity_key e \<in> entity_key ` set (entity_loop ents [] (insert (entity_key a) seen))"
        by (intro Cons.IH) auto
      then show ?thesis unfolding entity_loop_keep [OF True] by simp
    qed
  next
    case False
    with Cons.prems have "e \<in> set ents" by auto
    then have "entity_key e \<in> entity_key ` set (entity_loop ents [] seen)"
      using Cons.prems by (intro Cons.IH)
    then show ?thesis unfolding entity_loop_skip [OF False] .
  qed
qed

lemma entity_loop_first:
  "e \<in> set (entity_loop ents [] seen) \<Longrightarrow>
   find (\<lambda>x. survives x \<and> entity_key x = entity_key e) ents = Some e"
proof (induction ents arbitrary: seen)
  case Nil
  then show ?case by simp
next
  case (Cons a ents)
  show ?case
  proof (cases "survives a \<and> entity_key a \<notin> seen")
    case True
    with Cons.prems have "e = a \<or> e \<in> set (entity_loop ents [] (insert (entity_key a) seen))"
      unfolding entity_loop_keep [OF True] by simp
    then show ?thesis
    proof
      assume "e = a"
      with True show ?thesis by simp
    next
      assume m: "e \<in> set (entity_loop ents [] (insert (entity_key a) seen))"
      then have "entity_key e \<noteq> entity_key a" using entity_loop_members by fastforce
      then have "\<not> (survives a \<and> entity_key a = entity_key e)" by auto
      with Cons.IH [OF m] show ?thesis by (simp only: find.simps if_False)
    qed
  next
    case False
    with Cons.prems have m: "e \<in> set (entity_loop ents [] seen)"
      unfolding entity_loop_skip [OF False] by simp
    then have "survives e" "entity_key e \<notin> seen" using entity_loop_members by blast+
    with False have "\<not> (survives a \<and> entity_key a = entity_key e)" by auto
    with Cons.IH [OF m] show ?thesis by (simp only: find.simps if_False)
  qed
qed

lemma survives_iff:
  "survives e \<longleftrightarrow>
     1 < length (strip (ent_text e)) \<and>
     \<not> (strip (ent_text e) \<noteq> [] \<and> list_all is_digit (strip (ent_text e)))"
  by (simp add: survives_def purely_numeric_def filter_id_conv list_all_iff)

lemma entity_key_eq: "entity_key e = (map lower_char (ent_text e), ent_label e)"
  by (simp add: entity_key_def lower_def)

lemma take_shift:
  assumes "Suc n \<le> i"
  shows "take (i - n) (a # xs) = a # take (i - Suc n) xs"
proof -
  have "i - n = Suc (i - Suc n)" using assms by arith
  then show ?thesis by simp
qed

lemma earlier_keys_Cons:
  assumes "(i, e) \<in> set (enumerate (Suc n) ents)"
  shows "entity_key ` set (filter survives (take (i - n) (a # ents))) =
           (if survives a then {entity_key a} else {}) \<union>
           entity_key ` set (filter survives (take (i - Suc n) ents))"
proof -
  have "Suc n \<le> i" using assms by (simp add: in_set_enumerate_eq)
  then have "take (i - n) (a # ents) = a # take (i - Suc n) ents" by (rule take_shift)
  then show ?thesis by simp
qed

lemma tail_filter_keep:
  assumes "survives a"
  shows "filter (\<lambda>(i, e). survives e \<and>
             entity_key e \<notin> seen \<union> entity_key ` set (filter survives (take (i - n) (a # ents))))
           (enumerate (Suc n) ents) =
         filter (\<lambda>(i, e). survives e \<and>
             entity_key e \<notin> insert (entity_key a) seen \<union>
               entity_key ` set (filter survives (take (i - Suc n) ents)))
           (enumerate (Suc n) ents)"
proof (rule filter_cong [OF refl])
  fix p assume m: "p \<in> set (enumerate (Suc n) ents)"
  obtain i e where p: "p = (i, e)" by (cases p)
  have "entity_key ` set (filter survives (take (i - n) (a # ents))) =
      insert (entity_key a) (entity_key ` set (filter survives (take (i - Suc n) ents)))"
    using earlier_keys_Cons [of i e n ents a] m p assms by simp
  then have "seen \<union> entity_key ` set (filter survives (take (i - n) (a # ents))) =
      insert (entity_key a) seen \<union> entity_key ` set (filter survives (take (i - Suc n) ents))"
    by blast
  then show "(case p of (i, e) \<Rightarrow> survives e \<and>
        entity_key e \<notin> seen \<union> entity_key ` set (filter survives (take (i - n) (a # ents)))) =
      (case p of (i, e) \<Rightarrow> survives e \<and>
        entity_key e \<notin> insert (entity_key a) seen \<union>
          entity_key ` set (filter survives (take (i - Suc n) ents)))"
    unfolding p prod.case by (simp only:)
qed

lemma tail_filter_skip:
  assumes "\<not> (survives a \<and> entity_key a \<notin> seen)"
  shows "filter (\<lambda>(i, e). survives e \<and>
             entity_key e \<notin> seen \<union> entity_key ` set (filter survives (take (i - n) (a # ents))))
           (enumerate (Suc n) ents) =
         filter (\<lambda>(i, e). survives e \<and>
             entity_key e \<notin> seen \<union> entity_key ` set (filter survives (take (i - Suc n) ents)))
           (enumerate (Suc n) ents)"
proof (rule filter_cong [OF refl])
  fix p assume m: "p \<in> set (enumerate (Suc n) ents)"
  obtain i e where p: "p = (i, e)" by (cases p)
  have "seen \<union> entity_key ` set (filter survives (take (i - n) (a # ents))) =
      seen \<union> entity_key ` set (filter survives (take (i - Suc n) ents))"
  proof (cases "survives a")
    case True
    with assms have "entity_key a \<in> seen" by simp
    then show ?thesis using earlier_keys_Cons [of i e n ents a] m p True by auto
  next
    case False
    then show ?thesis using earlier_keys_Cons [of i e n ents a] m p by simp
  qed
  then show "(case p of (i, e) \<Rightarrow> survives e \<and>
        entity_key e \<notin> seen \<union> entity_key ` set (filter survives (take (i - n) (a # ents)))) =
      (case p of (i, e) \<Rightarrow> survives e \<and>
        entity_key e \<notin> seen \<union> entity_key ` set (filter survives (take (i - Suc n) ents)))"
    unfolding p prod.case by (simp only:)
qed

lemma filter_Cons_keep: "P x \<Longrightarrow> filter P (x # xs) = x # filter P xs"
  by simp

lemma filter_Cons_drop: "\<not> P x \<Longrightarrow> filter P (x # xs) = filter P xs"
  by simp

lemma entity_loop_positions:
  "entity_loop ents [] seen =
     map snd (filter (\<lambda>(i, e). survives e \<and>
                 entity_key e \<notin> seen \<union> entity_key ` set (filter survives (take (i - n) ents)))
               (enumerate n ents))"
proof (induction ents arbitrary: seen n)
  case Nil
  then show ?case by simp
next
  case (Cons a ents)
  let ?P = "\<lambda>(i, e). survives e \<and>
      entity_key e \<notin> seen \<union> entity_key ` set (filter survives (take (i - n) (a # ents)))"
  have e: "enumerate n (a # ents) = (n, a) # enumerate (Suc n) ents" by simp
  have head: "?P (n, a) \<longleftrightarrow> survives a \<and> entity_key a \<notin> seen" by simp
  show ?case
  proof (cases "survives a \<and> entity_key a \<notin> seen")
    case True
    then have "?P (n, a)" using head by simp
    then have "filter ?P (enumerate n (a # ents)) = (n, a) # filter ?P (enumerate (Suc n) ents)"
      unfolding e by (rule filter_Cons_keep)
    also have "filter ?P (enumerate (Suc n) ents) =
        filter (\<lambda>(i, e). survives e \<and> entity_key e \<notin> insert (entity_key a) seen \<union>
                  entity_key ` set (filter survives (take (i - Suc n) ents)))
          (enumerate (Suc n) ents)"
      using True by (intro tail_filter_keep) simp
    finally have "map snd (filter ?P (enumerate n (a # ents))) =
        a # entity_loop ents [] (insert (entity_key a) seen)"
      using Cons.IH [of "insert (entity_key a) seen" "Suc n"] by simp
    then show ?thesis unfolding entity_loop_keep [OF True] by (rule sym)
  next
    case False
    then have "\<not> ?P (n, a)" using head by simp
    then have "filter ?P (enumerate n (a # ents)) = filter ?P (enumerate (Suc n) ents)"
      unfolding e by (rule filter_Cons_drop)
    also have "\<dots> =
        filter (\<lambda>(i, e). survives e \<and> entity_key e \<notin> seen \<union>
                  entity_key ` set (filter survives (take (i - Suc n) ents)))
          (enumerate (Suc n) ents)"
      using False by (rule tail_filter_skip)
    finally have "map snd (filter ?P (enumerate n (a # ents))) = entity_loop ents [] seen"
      using Cons.IH [of seen "Suc n"] by simp
    then show ?thesis unfolding entity_loop_skip [OF False] by (rule sym)
  qed
qed

text \<open>
  Claim C9. With \<open>keep\<close> the entities whose trimmed text is longer than one character and not
  purely numeric, and \<open>key\<close> the pair of the lower-cased text and the label: the result is, in
  recognizer order, exactly the kept entities of the recognizer that no earlier kept entity
  shares its key with. Hence no two entries of the result have the same key, every entry
  is a kept one, and the result is a subsequence of the recognizer's entities. Two runs in
  which the recognizer returns the same entities give the same list.
\<close>

theorem entities_deduplicated:
  assumes "ents = nlp_ents env (ner_input text)"
    and "keep = (\<lambda>e. 1 < length (strip (ent_text e)) \<and>
                   \<not> (strip (ent_text e) \<noteq> [] \<and> list_all is_digit (strip (ent_text e))))"
    and "key = (\<lambda>e. (map lower_char (ent_text e), ent_label e))"
  shows "extract_entities env text =
           map snd (filter (\<lambda>(i, e). keep e \<and> key e \<notin> key ` set (filter keep (take i ents)))
                      (enumerate 0 ents)) \<and>
         distinct (map key (extract_entities env text)) \<and>
         list_all keep (extract_entities env text) \<and>
         subseq (extract_entities env text) ents \<and>
         (nlp_ents env' (ner_input text') = ents \<longrightarrow>
            extract_entities env' text' = extract_entities env text)"
proof -
  have "keep = survives" using assms(2) by (rule ssubst) (simp add: survives_iff fun_eq_iff)
  moreover have "key = entity_key"
    using assms(3) by (rule ssubst) (simp add: entity_key_eq fun_eq_iff)
  ultimately have k: "keep = survives" "key = entity_key" .
  have out: "extract_entities env text = entity_loop ents [] {}"
    using assms(1) by (simp add: extract_entities_def)
  have 1: "extract_entities env text =
      map snd (filter (\<lambda>(i, e). keep e \<and> key e \<notin> key ` set (filter keep (take i ents)))
                 (enumerate 0 ents))"
    unfolding out k using entity_loop_positions [of ents "{}" 0] by simp
  have 2: "distinct (map key (extract_entities env text))"
    unfolding out k by (rule entity_loop_distinct)
  have "\<forall>e \<in> set (entity_loop ents [] {}). survives e"
    using entity_loop_members by blast
  then have 3: "list_all keep (extract_entities env text)"
    unfolding out k by (simp add: list_all_iff)
  have 4: "subseq (extract_entities env text) ents"
    unfolding out by (rule entity_loop_subseq)
  have 5: "nlp_ents env' (ner_input text') = ents \<longrightarrow>
      extract_entities env' text' = extract_entities env text"
    unfolding out by (simp add: extract_entities_def)
  from 1 2 3 4 5 show ?thesis by (intro conjI)
qed

lemma entity_env_ents:
  "nlp_ents entity_env t =
     [\<lparr>ent_text = ''Bob'', ent_label = ''PERSON''\<rparr>,
      \<lparr>ent_text = ''Ada'', ent_label = ''PERSON''\<rparr>,
      \<lparr>ent_text = '' 42 '', ent_label = ''CARDINAL''\<rparr>,
      \<lparr>ent_text = ''x'', ent_label = ''ORG''\<rparr>,
      \<lparr>ent_text = ''Bob'', ent_label = ''PERSON''\<rparr>,
      \<lparr>ent_text = ''ADA'', ent_label = ''PERSON''\<rparr>,
      \<lparr>ent_text = ''Ada'', ent_label = ''ORG''\<rparr>]"
  by (simp add: entity_env_def)

lemma entity_env_result:
  "extract_entities entity_env t =
     [\<lparr>ent_text = ''Bob'', ent_label = ''PERSON''\<rparr>,
      \<lparr>ent_text = ''Ada'', ent_label = ''PERSON''\<rparr>,
      \<lparr>ent_text = ''Ada'', ent_label = ''ORG''\<rparr>]"
  by (simp add: extract_entities_def entity_env_ents entity_loop.simps(2) strip_def is_space_def
      match_digits_def at_dollar_def is_digit_def entity_key_def lower_def lower_char_def
      is_upper_char_def char_of_def bit_Suc_0_iff)

text \<open>
  Seven recognized entities: the padded number and the single letter are removed, the second
  \<open>Bob\<close> and the upper-case \<open>ADA\<close> repeat a key and are removed, \<open>Ada\<close> with another label is
  kept; the order of the recognizer is kept.
\<close>

theorem entities_deduplicated_witness:
  "extract_entities entity_env ''x'' =
     [\<lparr>ent_text = ''Bob'', ent_label = ''PERSON''\<rparr>,
      \<lparr>ent_text = ''Ada'', ent_label = ''PERSON''\<rparr>,
      \<lparr>ent_text = ''Ada'', ent_label = ''ORG''\<rparr>] \<and>
   map snd
     (filter
        (\<lambda>(i, e).
           (1 < length (strip (ent_text e)) \<and>
            \<not> (strip (ent_text e) \<noteq> [] \<and> list_all is_digit (strip (ent_text e)))) \<and>
           (map lower_char (ent_text e), ent_label e) \<notin>
             (\<lambda>e. (map lower_char (ent_text e), ent_label e)) `
               set (filter
                      (\<lambda>e. 1 < length (strip (ent_text e)) \<and>
                           \<not> (strip (ent_text e) \<noteq> [] \<and>
                              list_all is_digit (strip (ent_text e))))
                      (take i 
     [\<lparr>ent_text = ''Bob'', ent_label = ''PERSON''\<rparr>,
      \<lparr>ent_text = ''Ada'', ent_label = ''PERSON''\<rparr>,
      \<lparr>ent_text = '' 42 '', ent_label = ''CARDINAL''\<rparr>,
      \<lparr>ent_text = ''x'', ent_label = ''ORG''\<rparr>,
      \<lparr>ent_text = ''Bob'', ent_label = ''PERSON''\<rparr>,
      \<lparr>ent_text = ''ADA'', ent_label = ''PERSON''\<rparr>,
      \<lparr>ent_text = ''Ada'', ent_label = ''ORG''\<rparr>])))
        (enumerate 0 
     [\<lparr>ent_text = ''Bob'', ent_label = ''PERSON''\<rparr>,
      \<lparr>ent_text = ''Ada'', ent_label = ''PERSON''\<rparr>,
      \<lparr>ent_text = '' 42 '', ent_label = ''CARDINAL''\<rparr>,
      \<lparr>ent_text = ''x'', ent_label = ''ORG''\<rparr>,
      \<lparr>ent_text = ''Bob'', ent_label = ''PERSON''\<rparr>,
      \<lparr>ent_text = ''ADA'', ent_label = ''PERSON''\<rparr>,
      \<lparr>ent_text = ''Ada'', ent_label = ''ORG''\<rparr>])) =
     [\<lparr>ent_text = ''Bob'', ent_label = ''PERSON''\<rparr>,
      \<lparr>ent_text = ''Ada'', ent_label = ''PERSON''\<rparr>,
      \<lparr>ent_text = ''Ada'', ent_label = ''ORG''\<rparr>] \<and>
   extract_entities entity_env ''y'' = extract_entities entity_env ''x''"
proof -
  note t = entities_deduplicated [OF refl refl refl, of entity_env "''x''" entity_env "''y''",
      unfolded entity_env_ents]
  from t have e: "extract_entities entity_env ''x'' =
   map snd
     (filter
        (\<lambda>(i, e).
           (1 < length (strip (ent_text e)) \<and>
            \<not> (strip (ent_text e) \<noteq> [] \<and> list_all is_digit (strip (ent_text e)))) \<and>
           (map lower_char (ent_text e), ent_label e) \<notin>
             (\<lambda>e. (map lower_char (ent_text e), ent_label e)) `
               set (filter
                      (\<lambda>e. 1 < length (strip (ent_text e)) \<and>
                           \<not> (strip (ent_text e) \<noteq> [] \<and>
                              list_all is_digit (strip (ent_text e))))
                      (take i 
     [\<lparr>ent_text = ''Bob'', ent_label = ''PERSON''\<rparr>,
      \<lparr>ent_text = ''Ada'', ent_label = ''PERSON''\<rparr>,
      \<lparr>ent_text = '' 42 '', ent_label = ''CARDINAL''\<rparr>,
      \<lparr>ent_text = ''x'', ent_label = ''ORG''\<rparr>,
      \<lparr>ent_text = ''Bob'', ent_label = ''PERSON''\<rparr>,
      \<lparr>ent_text = ''ADA'', ent_label = ''PERSON''\<rparr>,
      \<lparr>ent_text = ''Ada'', ent_label = ''ORG''\<rparr>])))
        (enumerate 0 
     [\<lparr>ent_text = ''Bob'', ent_label = ''PERSON''\<rparr>,
      \<lparr>ent_text = ''Ada'', ent_label = ''PERSON''\<rparr>,
      \<lparr>ent_text = '' 42 '', ent_label = ''CARDINAL''\<rparr>,
      \<lparr>ent_text = ''x'', ent_label = ''ORG''\<rparr>,
      \<lparr>ent_text = ''Bob'', ent_label = ''PERSON''\<rparr>,
      \<lparr>ent_text = ''ADA'', ent_label = ''PERSON''\<rparr>,
      \<lparr>ent_text = ''Ada'', ent_label = ''ORG''\<rparr>]))"
    by (rule conjunct1)
  have "map snd
     (filter
        (\<lambda>(i, e).
           (1 < length (strip (ent_text e)) \<and>
            \<not> (strip (ent_text e) \<noteq> [] \<and> list_all is_digit (strip (ent_text e)))) \<and>
           (map lower_char (ent_text e), ent_label e) \<notin>
             (\<lambda>e. (map lower_char (ent_text e), ent_label e)) `
               set (filter
                      (\<lambda>e. 1 < length (strip (ent_text e)) \<and>
                           \<not> (strip (ent_text e) \<noteq> [] \<and>
                              list_all is_digit (strip (ent_text e))))
                      (take i 
     [\<lparr>ent_text = ''Bob'', ent_label = ''PERSON''\<rparr>,
      \<lparr>ent_text = ''Ada'', ent_label = ''PERSON''\<rparr>,
      \<lparr>ent_text = '' 42 '', ent_label = ''CARDINAL''\<rparr>,
      \<lparr>ent_text = ''x'', ent_label = ''ORG''\<rparr>,
      \<lparr>ent_text = ''Bob'', ent_label = ''PERSON''\<rparr>,
      \<lparr>ent_text = ''ADA'', ent_label = ''PERSON''\<rparr>,
      \<lparr>ent_text = ''Ada'', ent_label = ''ORG''\<rparr>])))
        (enumerate 0 
     [\<lparr>ent_text = ''Bob'', ent_label = ''PERSON''\<rparr>,
      \<lparr>ent_text = ''Ada'', ent_label = ''PERSON''\<rparr>,
      \<lparr>ent_text = '' 42 '', ent_label = ''CARDINAL''\<rparr>,
      \<lparr>ent_text = ''x'', ent_label = ''ORG''\<rparr>,
      \<lparr>ent_text = ''Bob'', ent_label = ''PERSON''\<rparr>,
      \<lparr>ent_text = ''ADA'', ent_label = ''PERSON''\<rparr>,
      \<lparr>ent_text = ''Ada'', ent_label = ''ORG''\<rparr>])) =
     [\<lparr>ent_text = ''Bob'', ent_label = ''PERSON''\<rparr>,
      \<lparr>ent_text = ''Ada'', ent_label = ''PERSON''\<rparr>,
      \<lparr>ent_text = ''Ada'', ent_label = ''ORG''\<rparr>]"
    unfolding e [symmetric] by (rule entity_env_result)
  moreover from t have "extract_entities entity_env ''y'' = extract_entities entity_env ''x''"
    by blast
  ultimately show ?thesis using entity_env_result [of "''x''"] by blast
qed

end
